theory Spec2Isabelle
  imports Main
begin

section \<open>The extension's event handlers (src/index.ts)\<close>

text \<open>
  The embedding follows \<^verbatim>\<open>activate\<close> in \<^verbatim>\<open>src/index.ts\<close>: the handlers
  registered for document-change, document-open and document-close notifications, and
  the two add-to-context commands. Objects whose classes live in other modules
  (\<^verbatim>\<open>CompletionProvider\<close>, \<^verbatim>\<open>FileInteractionCache\<close>,
  \<^verbatim>\<open>SidebarProvider\<close>) appear through the calls the handlers make on them: each
  call is appended to a trace kept in the state, in program order.
\<close>

subsection \<open>Data\<close>

text \<open>
  The first content change of a change notification: the inserted text and the start
  of the edited range (\<^verbatim>\<open>changes.text\<close>, \<^verbatim>\<open>changes.range.start\<close>).
\<close>

record change =
  change_text :: string
  start_line :: nat
  start_character :: nat

text \<open>
  Everything the change handler reads while it handles one notification:
  \<^item> \<open>contentChanges\<close>, \<open>fsPath\<close>: \<^verbatim>\<open>e.contentChanges\<close> and
    \<^verbatim>\<open>e.document.uri.fsPath\<close>;
  \<^item> \<open>lastCompletionText\<close>, \<open>lastCompletionId\<close>, \<open>document_fileName\<close>:
    the provider's \<^verbatim>\<open>lastCompletionText\<close>, \<^verbatim>\<open>lastCompletionId\<close>
    (\<^verbatim>\<open>string | undefined\<close>) and \<^verbatim>\<open>_document?.fileName\<close> at that moment;
  \<^item> \<open>has_recordCompletionInteraction\<close>: whether
    \<^verbatim>\<open>typeof completionProvider.recordCompletionInteraction === "function"\<close>;
  \<^item> \<open>homedir_throws\<close>: whether \<^verbatim>\<open>os.homedir()\<close> raises;
  \<^item> \<open>record_throws\<close>: the calls of \<^verbatim>\<open>recordCompletionInteraction\<close> that
    raise, numbered from 0 within this one notification;
  \<^item> \<open>stroke_throws\<close>: the calls of \<^verbatim>\<open>fileInteractionCache.incrementStrokes\<close>
    that raise, numbered from 0 within this one notification.
\<close>

record change_event =
  contentChanges :: "change list"
  fsPath :: string
  lastCompletionText :: string
  lastCompletionId :: "string option"
  document_fileName :: "string option"
  has_recordCompletionInteraction :: bool
  homedir_throws :: bool
  record_throws :: "nat set"
  stroke_throws :: "nat set"

text \<open>The arguments of one call \<^verbatim>\<open>recordCompletionInteraction(accepted, userText, completionId)\<close>.\<close>

record feedback =
  accepted :: bool
  userText :: "string option"
  completionId :: string

text \<open>The calls the handlers make on \<^verbatim>\<open>fileInteractionCache\<close>.\<close>

datatype fic_call =
  StartSession string
  | EndSession
  | Delete string
  | IncrementVisits
  | IncrementStrokes nat nat

datatype exn = HomedirError | RecordError | StrokeError

text \<open>
  The state the handlers share: the two dedup structures declared in \<^verbatim>\<open>activate\<close>
  (lines 85-86), and the traces of the calls made so far on the provider
  (\<^verbatim>\<open>setAcceptedLastCompletion\<close>, \<^verbatim>\<open>recordCompletionInteraction\<close>), on the
  interaction cache and on \<^verbatim>\<open>console.error\<close>.
\<close>

record ext_state =
  recentCompletionIdsSet :: "string set"
  recentCompletionIdsQueue :: "string list"
  accepted_calls :: "bool list"
  record_calls :: "feedback list"
  fic_calls :: "fic_call list"
  console_errors :: "string list"

definition MAX_RECENT_COMPLETION_IDS :: nat where
  "MAX_RECENT_COMPLETION_IDS = 10"

definition initial_state :: ext_state where
  "initial_state =
     \<lparr>recentCompletionIdsSet = {}, recentCompletionIdsQueue = [],
      accepted_calls = [], record_calls = [], fic_calls = [], console_errors = []\<rparr>"

subsection \<open>Statements that may raise\<close>

text \<open>
  A statement maps the state to the new state and the exception it raised, if any. The
  state changes made before a raise stay, as mutation does in the source.
\<close>

type_synonym stmt = "ext_state \<Rightarrow> ext_state \<times> exn option"

definition skip :: stmt where
  "skip s = (s, None)"

definition seq :: "stmt \<Rightarrow> stmt \<Rightarrow> stmt" where
  "seq f g s = (case f s of (s', None) \<Rightarrow> g s' | (s', Some x) \<Rightarrow> (s', Some x))"

definition try_catch :: "stmt \<Rightarrow> stmt \<Rightarrow> stmt" where
  "try_catch body handler s =
     (case body s of (s', None) \<Rightarrow> (s', None) | (s', Some x) \<Rightarrow> handler s')"

definition console_error :: "string \<Rightarrow> stmt" where
  "console_error msg s = (s\<lparr>console_errors := console_errors s @ [msg]\<rparr>, None)"

text \<open>
  \<^verbatim>\<open>fileInteractionCache.incrementStrokes(line, character)\<close>: the call is traced; it
  raises when its number within this notification (the calls traced on the interaction
  cache since the handler started with \<open>f0\<close> of them) is in \<open>stroke_throws\<close>.
\<close>

definition incrementStrokes :: "change_event \<Rightarrow> nat \<Rightarrow> nat \<Rightarrow> nat \<Rightarrow> stmt" where
  "incrementStrokes e f0 l ch s =
     (s\<lparr>fic_calls := fic_calls s @ [IncrementStrokes l ch]\<rparr>,
      if length (fic_calls s) - f0 \<in> stroke_throws e then Some StrokeError else None)"

definition os_homedir :: "change_event \<Rightarrow> stmt" where
  "os_homedir e s = (s, if homedir_throws e then Some HomedirError else None)"

text \<open>
  \<^verbatim>\<open>recordCompletionInteraction(accepted, userText, completionId)\<close>: the call is
  traced; it raises when its number within this notification (the calls traced since
  the handler started with \<open>n0\<close> of them) is in \<open>record_throws\<close>.
\<close>

definition recordCompletionInteraction :: "change_event \<Rightarrow> nat \<Rightarrow> feedback \<Rightarrow> stmt" where
  "recordCompletionInteraction e n0 r s =
     (s\<lparr>record_calls := record_calls s @ [r]\<rparr>,
      if length (record_calls s) - n0 \<in> record_throws e then Some RecordError else None)"

subsection \<open>The dedup cache (lines 398-406)\<close>

definition dedup_insert :: "string \<Rightarrow> ext_state \<Rightarrow> ext_state" where
  "dedup_insert cid s =
     (if cid \<notin> recentCompletionIdsSet s then
        let s1 = s\<lparr>recentCompletionIdsSet := insert cid (recentCompletionIdsSet s),
                   recentCompletionIdsQueue := recentCompletionIdsQueue s @ [cid]\<rparr>
        in if length (recentCompletionIdsQueue s1) > MAX_RECENT_COMPLETION_IDS then
             (case recentCompletionIdsQueue s1 of
                [] \<Rightarrow> s1
              | oldest # rest \<Rightarrow>
                  let s2 = s1\<lparr>recentCompletionIdsQueue := rest\<rparr>
                  in if oldest \<noteq> [] then
                       s2\<lparr>recentCompletionIdsSet := recentCompletionIdsSet s2 - {oldest}\<rparr>
                     else s2)
           else s1
      else s)"

subsection \<open>The change handler (lines 332-434)\<close>

text \<open>
  \<^verbatim>\<open>!!(changes.text && lastCompletion && changes.text === lastCompletion)\<close>, the
  record's \<^verbatim>\<open>accepted\<close> (lines 392-393 and 413-414): the empty string is falsy.
\<close>

definition is_accepted :: "change \<Rightarrow> change_event \<Rightarrow> bool" where
  "is_accepted c e =
     (change_text c \<noteq> [] \<and> lastCompletionText e \<noteq> [] \<and> change_text c = lastCompletionText e)"

text \<open>The record both recording paths compute (lines 392-394 and 413-415).\<close>

definition computed_record :: "change \<Rightarrow> change_event \<Rightarrow> string \<Rightarrow> feedback" where
  "computed_record c e cid =
     \<lparr>accepted = is_accepted c e,
      userText = (if is_accepted c e then None else Some (change_text c)),
      completionId = cid\<rparr>"

text \<open>The body of the inner \<^verbatim>\<open>try\<close> (lines 378-408).\<close>

definition inspect_and_record :: "change_event \<Rightarrow> change \<Rightarrow> string \<Rightarrow> nat \<Rightarrow> stmt" where
  "inspect_and_record e c cid n0 =
     seq (os_homedir e)
       (\<lambda>s. if cid \<in> recentCompletionIdsSet s then (s, None)
            else if has_recordCompletionInteraction e then
              seq (recordCompletionInteraction e n0 (computed_record c e cid))
                  (\<lambda>s'. (dedup_insert cid s', None)) s
            else (s, None))"

text \<open>The \<^verbatim>\<open>catch\<close> of the inner \<^verbatim>\<open>try\<close> (lines 410-421).\<close>

definition fallback_record :: "change_event \<Rightarrow> change \<Rightarrow> string \<Rightarrow> nat \<Rightarrow> stmt" where
  "fallback_record e c cid n0 =
     seq (console_error ''Failed to inspect/write completion interaction for completionId'')
       (try_catch
          (\<lambda>s. if has_recordCompletionInteraction e
               then recordCompletionInteraction e n0 (computed_record c e cid) s
               else (s, None))
          (console_error ''Failed to fallback record completion interaction''))"

text \<open>
  The outer \<^verbatim>\<open>try\<close> (lines 370-429): \<^verbatim>\<open>if (completionId)\<close> is false for
  \<^verbatim>\<open>undefined\<close> and for the empty string.
\<close>

definition record_interaction :: "change_event \<Rightarrow> change \<Rightarrow> nat \<Rightarrow> stmt" where
  "record_interaction e c n0 =
     try_catch
       (case lastCompletionId e of
          None \<Rightarrow> skip
        | Some cid \<Rightarrow>
            if cid \<noteq> [] then
              try_catch (inspect_and_record e c cid n0) (fallback_record e c cid n0)
            else skip)
       (console_error ''Failed to record completion interaction'')"

text \<open>\<^verbatim>\<open>(completionProvider as any)._document?.fileName || ""\<close> (line 353).\<close>

definition completionDocPath :: "change_event \<Rightarrow> string" where
  "completionDocPath e = (case document_fileName e of None \<Rightarrow> [] | Some f \<Rightarrow> f)"

text \<open>
  The handler. \<open>getLineBreakCount\<close> is the function imported from
  \<^verbatim>\<open>./webview/utils\<close>, a parameter here; the call of
  \<^verbatim>\<open>setAcceptedLastCompletion\<close> is traced with its argument; both are taken to
  return. In the first \<^verbatim>\<open>try\<close> (lines
  351-360) the two paths are plain property reads, so its body raises only through the
  \<open>incrementStrokes\<close> call it makes when the paths differ; its \<^verbatim>\<open>catch\<close> (lines
  361-367) then makes that call again, outside any \<^verbatim>\<open>try\<close>. Both branches
  \<^verbatim>\<open>return\<close>. The call that ends the handler (lines 431-433) is outside any
  \<^verbatim>\<open>try\<close> as well.
\<close>

definition onDidChangeTextDocument :: "(string \<Rightarrow> nat) \<Rightarrow> change_event \<Rightarrow> stmt" where
  "onDidChangeTextDocument getLineBreakCount e s =
     (case contentChanges e of
        [] \<Rightarrow> (s, None)
      | changes # _ \<Rightarrow>
          let lastCompletion = lastCompletionText e;
              isLastCompltionMultiline = (getLineBreakCount lastCompletion > 1);
              s1 = s\<lparr>accepted_calls := accepted_calls s @
                      [change_text changes \<noteq> [] \<and> lastCompletion \<noteq> [] \<and>
                       change_text changes = lastCompletion \<and> isLastCompltionMultiline]\<rparr>;
              changedPath = fsPath e;
              completionDocPath = completionDocPath e
          in if changedPath = [] \<or> completionDocPath = [] \<or> changedPath \<noteq> completionDocPath
             then try_catch
                    (incrementStrokes e (length (fic_calls s1))
                       (start_line changes) (start_character changes))
                    (incrementStrokes e (length (fic_calls s1))
                       (start_line changes) (start_character changes)) s1
             else seq (record_interaction e changes (length (record_calls s1)))
                      (incrementStrokes e (length (fic_calls s1))
                         (start_line changes) (start_character changes)) s1)"

text \<open>A sequence of change notifications, handled in order.\<close>

definition handle_changes :: "(string \<Rightarrow> nat) \<Rightarrow> ext_state \<Rightarrow> change_event list \<Rightarrow> ext_state" where
  "handle_changes g s es = foldl (\<lambda>s e. fst (onDidChangeTextDocument g e s)) s es"

subsection \<open>The open and close handlers (lines 322-331)\<close>

definition onDidCloseTextDocument :: "string \<Rightarrow> ext_state \<Rightarrow> ext_state" where
  "onDidCloseTextDocument filePath s =
     s\<lparr>fic_calls := fic_calls s @ [EndSession, Delete filePath]\<rparr>"

definition onDidOpenTextDocument :: "string \<Rightarrow> ext_state \<Rightarrow> ext_state" where
  "onDidOpenTextDocument filePath s =
     s\<lparr>fic_calls := fic_calls s @ [StartSession filePath, IncrementVisits]\<rparr>"

subsection \<open>The Interaction Store\<close>

text \<open>
  Modelled from the spec: the per-file record of the Interaction Store (class
  \<^verbatim>\<open>FileInteractionCache\<close> of \<^verbatim>\<open>./extension/file-interaction\<close>, which is not
  among the sources): visits, strokes and the last stroke position. The session
  timestamps are left out.
\<close>

record interaction =
  visits :: nat
  strokes :: nat
  lastStrokePosition :: "(nat \<times> nat) option"

text \<open>
  Modelled from the spec: the store's state, the path of the open session (at most one)
  and the accumulated state of each path.
\<close>

record interaction_store =
  currentFile :: "string option"
  interactions :: "string \<rightharpoonup> interaction"

text \<open>Modelled from the spec: no session exists before the first \<open>startSession\<close>.\<close>

definition empty_store :: interaction_store where
  "empty_store = \<lparr>currentFile = None, interactions = Map.empty\<rparr>"

text \<open>
  Modelled from the spec: \<open>startSession(path)\<close> opens a session for \<open>path\<close>; the
  counters of a path persist across sessions, so a path already known keeps its state
  and an unknown one starts from zero.
\<close>

definition fic_startSession :: "string \<Rightarrow> interaction_store \<Rightarrow> interaction_store" where
  "fic_startSession p st =
     st\<lparr>currentFile := Some p,
        interactions :=
          (case interactions st p of
             None \<Rightarrow> (interactions st)(p \<mapsto> \<lparr>visits = 0, strokes = 0, lastStrokePosition = None\<rparr>)
           | Some i \<Rightarrow> interactions st)\<rparr>"

text \<open>
  Modelled from the spec: \<open>endSession()\<close> closes whatever session is open, and is a no-op
  if none is.
\<close>

definition fic_endSession :: "interaction_store \<Rightarrow> interaction_store" where
  "fic_endSession st = st\<lparr>currentFile := None\<rparr>"

text \<open>
  Modelled from the spec: \<open>incrementVisits()\<close> increments the visit counter of the
  currently open session's path (nothing to increment without an open session or
  without state for its path).
\<close>

definition fic_incrementVisits :: "interaction_store \<Rightarrow> interaction_store" where
  "fic_incrementVisits st =
     (case currentFile st of
        None \<Rightarrow> st
      | Some p \<Rightarrow>
          (case interactions st p of
             None \<Rightarrow> st
           | Some i \<Rightarrow> st\<lparr>interactions := (interactions st)(p \<mapsto> i\<lparr>visits := visits i + 1\<rparr>)\<rparr>))"

text \<open>
  Modelled from the spec: \<open>incrementStrokes(line, character)\<close> increments the stroke
  counter of the currently open session's path and records the position as the last
  stroke position.
\<close>

definition fic_incrementStrokes :: "nat \<Rightarrow> nat \<Rightarrow> interaction_store \<Rightarrow> interaction_store" where
  "fic_incrementStrokes l ch st =
     (case currentFile st of
        None \<Rightarrow> st
      | Some p \<Rightarrow>
          (case interactions st p of
             None \<Rightarrow> st
           | Some i \<Rightarrow>
               st\<lparr>interactions := (interactions st)
                    (p \<mapsto> i\<lparr>strokes := strokes i + 1, lastStrokePosition := Some (l, ch)\<rparr>)\<rparr>))"

text \<open>Modelled from the spec: \<open>delete(path)\<close> removes all accumulated state for \<open>path\<close>.\<close>

definition fic_delete :: "string \<Rightarrow> interaction_store \<Rightarrow> interaction_store" where
  "fic_delete p st = st\<lparr>interactions := (interactions st)(p := None)\<rparr>"

text \<open>The store after the calls the handlers have traced, from the empty store.\<close>

fun fic_apply :: "fic_call \<Rightarrow> interaction_store \<Rightarrow> interaction_store" where
  "fic_apply (StartSession p) st = fic_startSession p st"
| "fic_apply EndSession st = fic_endSession st"
| "fic_apply (Delete p) st = fic_delete p st"
| "fic_apply IncrementVisits st = fic_incrementVisits st"
| "fic_apply (IncrementStrokes l ch) st = fic_incrementStrokes l ch st"

definition store_of :: "ext_state \<Rightarrow> interaction_store" where
  "store_of s = fold fic_apply (fic_calls s) empty_store"

subsection \<open>The add-to-context commands (lines 276-321)\<close>

text \<open>
  The active editor as the commands read it: the document's \<^verbatim>\<open>uri.fsPath\<close>, the
  selection's start and end, and the text \<^verbatim>\<open>document.getText(selection)\<close> returns.
  A selection is empty when its start and end coincide.
\<close>

record position =
  line :: nat
  character :: nat

record editor =
  document_fsPath :: string
  selection_start :: position
  selection_end :: position
  selected_text :: string

definition selection_isEmpty :: "editor \<Rightarrow> bool" where
  "selection_isEmpty ed = (selection_start ed = selection_end ed)"

text \<open>
  The library functions the commands call, as parameters:
  \<^verbatim>\<open>workspace.asRelativePath\<close> and \<^verbatim>\<open>path.basename\<close>.
\<close>

record host =
  asRelativePath :: "string \<Rightarrow> string"
  basename :: "string \<Rightarrow> string"

record selectionRange =
  startLine :: nat
  startCharacter :: nat
  endLine :: nat
  endCharacter :: nat

text \<open>
  The two kinds of context item (\<^verbatim>\<open>category: "file"\<close> and
  \<^verbatim>\<open>category: "selection"\<close>), with their fields in the order \<^verbatim>\<open>id\<close>,
  \<^verbatim>\<open>name\<close>, \<^verbatim>\<open>path\<close>, and for a selection \<^verbatim>\<open>content\<close> and
  \<^verbatim>\<open>selectionRange\<close>.
\<close>

datatype context_item =
  FileContextItem string string string
  | SelectionContextItem string string string string selectionRange

fun item_id :: "context_item \<Rightarrow> string" where
  "item_id (FileContextItem i n p) = i"
| "item_id (SelectionContextItem i n p c r) = i"

text \<open>The decimal digits of a number, as a template literal prints it.\<close>

definition digit_char :: "nat \<Rightarrow> char" where
  "digit_char d = ''0123456789'' ! (d mod 10)"

fun string_of_nat :: "nat \<Rightarrow> string" where
  "string_of_nat n =
     (if n div 10 = 0 then [digit_char n]
      else string_of_nat (n div 10) @ [digit_char n])"

declare string_of_nat.simps [simp del]

text \<open>
  The sidebar as the commands see it: whether \<^verbatim>\<open>sidebarProvider.addContextItem\<close>
  exists, and the registry of context items it maintains. \<open>replaces\<close> selects which of
  the two behaviours the spec allows on an identifier already present.
\<close>

record sidebar =
  has_addContextItem :: bool
  replaces :: bool
  items :: "context_item list"

text \<open>
  Modelled from the spec: \<open>add(item)\<close> of the Context Item Registry
  (\<^verbatim>\<open>SidebarProvider.addContextItem\<close>, which is not among the sources) inserts keyed by
  \<open>id\<close>, in insertion order; re-adding an existing \<open>id\<close> replaces in place or is
  ignored, and never duplicates.
\<close>

definition addContextItem :: "context_item \<Rightarrow> sidebar \<Rightarrow> sidebar" where
  "addContextItem item sb =
     (if item_id item \<in> item_id ` set (items sb) then
        (if replaces sb
         then sb\<lparr>items := map (\<lambda>x. if item_id x = item_id item then item else x) (items sb)\<rparr>
         else sb)
      else sb\<lparr>items := items sb @ [item]\<rparr>)"

text \<open>The command \<^verbatim>\<open>addFileToContext\<close> (lines 276-290), on the active editor if any.\<close>

definition addFileToContext :: "host \<Rightarrow> editor option \<Rightarrow> sidebar \<Rightarrow> sidebar" where
  "addFileToContext h activeTextEditor sb =
     (case activeTextEditor of
        None \<Rightarrow> sb
      | Some ed \<Rightarrow>
          let filePath = asRelativePath h (document_fsPath ed);
              fileContextItem =
                FileContextItem filePath (basename h (document_fsPath ed)) filePath
          in if has_addContextItem sb then addContextItem fileContextItem sb else sb)"

text \<open>
  The command \<^verbatim>\<open>addSelectionToContext\<close> (lines 291-321). \<open>uuid\<close> is the value
  \<^verbatim>\<open>uuidv4()\<close> returns in this call; the second component is the message shown by
  \<^verbatim>\<open>window.showInformationMessage\<close>, if any.
\<close>

definition addSelectionToContext ::
    "host \<Rightarrow> string \<Rightarrow> editor option \<Rightarrow> sidebar \<Rightarrow> sidebar \<times> string option" where
  "addSelectionToContext h uuid activeTextEditor sb =
     (case activeTextEditor of
        None \<Rightarrow> (sb, Some ''No text selected to add to context.'')
      | Some ed \<Rightarrow>
          if \<not> selection_isEmpty ed then
            let filePath = asRelativePath h (document_fsPath ed);
                selectionContextItem =
                  SelectionContextItem uuid
                    (''Selection from '' @ basename h filePath @ '' (L'' @
                       string_of_nat (line (selection_start ed) + 1) @ ''-L'' @
                       string_of_nat (line (selection_end ed) + 1) @ '')'')
                    filePath (selected_text ed)
                    \<lparr>startLine = line (selection_start ed),
                     startCharacter = character (selection_start ed),
                     endLine = line (selection_end ed),
                     endCharacter = character (selection_end ed)\<rparr>
            in (if has_addContextItem sb then addContextItem selectionContextItem sb else sb,
                None)
          else (sb, Some ''No text selected to add to context.''))"

subsection \<open>Notions the properties use\<close>

text \<open>The records handed over between two states.\<close>

definition new_records :: "ext_state \<Rightarrow> ext_state \<Rightarrow> feedback list" where
  "new_records s s' = drop (length (record_calls s)) (record_calls s')"

text \<open>
  The edit is in the file of the last completion: the test of line 354 fails, and the
  handler goes on to the recording block.
\<close>

definition same_file :: "change_event \<Rightarrow> bool" where
  "same_file e = (fsPath e \<noteq> [] \<and> completionDocPath e \<noteq> [] \<and> fsPath e = completionDocPath e)"

text \<open>The calls made on the interaction cache between two states.\<close>

definition new_fic_calls :: "ext_state \<Rightarrow> ext_state \<Rightarrow> fic_call list" where
  "new_fic_calls s s' = drop (length (fic_calls s)) (fic_calls s')"

text \<open>The two dedup structures together.\<close>

definition cache :: "ext_state \<Rightarrow> string set \<times> string list" where
  "cache s = (recentCompletionIdsSet s, recentCompletionIdsQueue s)"

text \<open>
  What holds of the dedup structures in every state the handler reaches: the set holds
  the queue's elements, the queue has no repetition, at most
  \<open>MAX_RECENT_COMPLETION_IDS\<close> elements, and no empty identifier.
\<close>

definition cache_inv :: "ext_state \<Rightarrow> bool" where
  "cache_inv s =
     (recentCompletionIdsSet s = set (recentCompletionIdsQueue s) \<and>
      distinct (recentCompletionIdsQueue s) \<and>
      length (recentCompletionIdsQueue s) \<le> MAX_RECENT_COMPLETION_IDS \<and>
      [] \<notin> set (recentCompletionIdsQueue s))"

text \<open>
  A notification qualifies for recording under identifier \<open>cid\<close>: it carries a content
  change in the file of the last completion, the provider knows \<open>cid\<close> as its last
  completion, and the provider can record.
\<close>

definition qualifies :: "string \<Rightarrow> change_event \<Rightarrow> bool" where
  "qualifies cid e =
     (contentChanges e \<noteq> [] \<and> same_file e \<and>
      lastCompletionId e = Some cid \<and> cid \<noteq> [] \<and> has_recordCompletionInteraction e)"

text \<open>Nothing raises while the notification is handled.\<close>

definition no_faults :: "change_event \<Rightarrow> bool" where
  "no_faults e = (\<not> homedir_throws e \<and> 0 \<notin> record_throws e)"

text \<open>
  The identifier a notification offers to the dedup cache: that of a qualifying
  notification during which nothing raises.
\<close>

definition offered_id :: "change_event \<Rightarrow> string option" where
  "offered_id e =
     (case lastCompletionId e of
        None \<Rightarrow> None
      | Some cid \<Rightarrow> if qualifies cid e \<and> no_faults e then Some cid else None)"

definition offered_ids :: "change_event list \<Rightarrow> string list" where
  "offered_ids es = List.map_filter offered_id es"

text \<open>
  The identifiers a notification inserts into the dedup cache: those the queue holds
  after it that the set did not hold before it.
\<close>

definition inserted_by :: "(string \<Rightarrow> nat) \<Rightarrow> change_event \<Rightarrow> ext_state \<Rightarrow> string list" where
  "inserted_by g e s =
     filter (\<lambda>i. i \<notin> recentCompletionIdsSet s)
       (recentCompletionIdsQueue (fst (onDidChangeTextDocument g e s)))"

text \<open>
  Of a list of insertions in order, those that follow the first insertion of \<open>cid\<close>.
\<close>

definition inserted_after :: "string \<Rightarrow> string list \<Rightarrow> string list" where
  "inserted_after cid ins = tl (dropWhile (\<lambda>i. i \<noteq> cid) ins)"

text \<open>
  In a sequence of notifications handled from \<open>s\<close>, after the insertions \<open>ins\<close>
  made so far: whenever a notification qualifies for \<open>cid\<close>, fewer than
  \<open>MAX_RECENT_COMPLETION_IDS\<close> identifiers have been inserted since \<open>cid\<close> was.
\<close>

fun within_window ::
    "(string \<Rightarrow> nat) \<Rightarrow> string \<Rightarrow> string list \<Rightarrow> ext_state \<Rightarrow> change_event list \<Rightarrow> bool" where
  "within_window g cid ins s [] = True"
| "within_window g cid ins s (e # es) =
     ((qualifies cid e \<longrightarrow> length (inserted_after cid ins) < MAX_RECENT_COMPLETION_IDS) \<and>
      within_window g cid (ins @ inserted_by g e s) (fst (onDidChangeTextDocument g e s)) es)"

text \<open>
  A notification takes the error path of the recording block: it logs an error.
\<close>

definition logs_error :: "(string \<Rightarrow> nat) \<Rightarrow> change_event \<Rightarrow> ext_state \<Rightarrow> bool" where
  "logs_error g e s = (console_errors (fst (onDidChangeTextDocument g e s)) \<noteq> console_errors s)"

text \<open>
  In a sequence of notifications handled from \<open>s\<close>, no notification that qualifies for
  \<open>cid\<close> takes the error path.
\<close>

fun fallback_free :: "(string \<Rightarrow> nat) \<Rightarrow> string \<Rightarrow> ext_state \<Rightarrow> change_event list \<Rightarrow> bool" where
  "fallback_free g cid s [] = True"
| "fallback_free g cid s (e # es) =
     ((qualifies cid e \<longrightarrow> \<not> logs_error g e s) \<and>
      fallback_free g cid (fst (onDidChangeTextDocument g e s)) es)"

text \<open>The records handed over so far for one identifier.\<close>

definition records_for :: "string \<Rightarrow> ext_state \<Rightarrow> feedback list" where
  "records_for cid s = filter (\<lambda>r. completionId r = cid) (record_calls s)"

subsection \<open>Sample inputs\<close>

text \<open>
  A line counter to instantiate \<open>getLineBreakCount\<close> in the examples: the number of
  newline-separated pieces of the text.
\<close>

definition line_count :: "string \<Rightarrow> nat" where
  "line_count t = Suc (length (filter (\<lambda>ch. ch = CHR 0x0A) t))"

text \<open>
  An edit inserting \<open>txt\<close> at line 3, character 7 of \<^verbatim>\<open>/src/a.ts\<close>, while the
  provider's last completion, with text \<open>lct\<close> and identifier \<open>cid\<close>, was issued
  for that same file; nothing raises.
\<close>

definition edit_event :: "string \<Rightarrow> string \<Rightarrow> string option \<Rightarrow> change_event" where
  "edit_event txt lct cid =
     \<lparr>contentChanges = [\<lparr>change_text = txt, start_line = 3, start_character = 7\<rparr>],
      fsPath = ''/src/a.ts'', lastCompletionText = lct, lastCompletionId = cid,
      document_fileName = Some ''/src/a.ts'', has_recordCompletionInteraction = True,
      homedir_throws = False, record_throws = {}, stroke_throws = {}\<rparr>"

text \<open>One edit per identifier of the list, in order.\<close>

definition edits_for :: "string list \<Rightarrow> change_event list" where
  "edits_for ids = map (\<lambda>i. edit_event ''x'' ''y'' (Some i)) ids"

text \<open>
  A host whose workspace root is \<^verbatim>\<open>/\<close>, an editor on \<^verbatim>\<open>/src/a.ts\<close> with lines
  1 to 3 selected, and an empty sidebar that can add items.
\<close>

definition sample_host :: host where
  "sample_host =
     \<lparr>asRelativePath = drop 1,
      basename = (\<lambda>p. rev (takeWhile (\<lambda>ch. ch \<noteq> CHR ''/'') (rev p)))\<rparr>"

definition sample_editor :: editor where
  "sample_editor =
     \<lparr>document_fsPath = ''/src/a.ts'',
      selection_start = \<lparr>line = 0, character = 0\<rparr>,
      selection_end = \<lparr>line = 2, character = 4\<rparr>,
      selected_text = ''abc''\<rparr>"

definition empty_sidebar :: sidebar where
  "empty_sidebar = \<lparr>has_addContextItem = True, replaces = False, items = []\<rparr>"

section \<open>Properties of the change handler\<close>

subsection \<open>What one notification does\<close>

lemmas stmt_defs = skip_def seq_def try_catch_def console_error_def incrementStrokes_def
  os_homedir_def recordCompletionInteraction_def

lemma dedup_insert_frame [simp]:
  "accepted_calls (dedup_insert cid s) = accepted_calls s"
  "record_calls (dedup_insert cid s) = record_calls s"
  "fic_calls (dedup_insert cid s) = fic_calls s"
  "console_errors (dedup_insert cid s) = console_errors s"
  by (simp_all add: dedup_insert_def Let_def split: list.splits)

lemma record_interaction_no_exn: "snd (record_interaction e c n0 s) = None"
  by (simp add: record_interaction_def inspect_and_record_def fallback_record_def stmt_defs
      split: option.splits prod.splits if_splits)

lemma record_interaction_fic: "fic_calls (fst (record_interaction e c n0 s)) = fic_calls s"
  by (auto simp add: record_interaction_def inspect_and_record_def fallback_record_def stmt_defs
      split: option.splits prod.splits if_splits)

lemma record_interaction_eq:
  "record_interaction e c n0 s = (fst (record_interaction e c n0 s), None)"
  using record_interaction_no_exn [of e c n0 s] by (simp add: prod_eq_iff)

lemma record_then_strokes:
  "seq (record_interaction e c n0) (incrementStrokes e f0 l ch) s =
     (fst (record_interaction e c n0 s)
        \<lparr>fic_calls := fic_calls s @ [IncrementStrokes l ch]\<rparr>,
      if length (fic_calls s) - f0 \<in> stroke_throws e then Some StrokeError else None)"
  by (subst seq_def, subst record_interaction_eq)
    (simp add: incrementStrokes_def record_interaction_fic)

text \<open>The five ways through the recording block, for the call the handler makes.\<close>

lemma record_interaction_cases:
  "n0 = length (record_calls s) \<Longrightarrow>
   fst (record_interaction e c n0 s) =
    (case lastCompletionId e of None \<Rightarrow> s | Some cid \<Rightarrow>
      if cid = [] then s
      else if homedir_throws e then
        (let s1 = s\<lparr>console_errors := console_errors s @
                    [''Failed to inspect/write completion interaction for completionId'']\<rparr>
         in if has_recordCompletionInteraction e then
              (let s2 = s1\<lparr>record_calls := record_calls s @ [computed_record c e cid]\<rparr>
               in if 0 \<in> record_throws e
                  then s2\<lparr>console_errors := console_errors s2 @
                         [''Failed to fallback record completion interaction'']\<rparr>
                  else s2)
            else s1)
      else if cid \<in> recentCompletionIdsSet s \<or> \<not> has_recordCompletionInteraction e then s
      else if 0 \<notin> record_throws e then
        dedup_insert cid (s\<lparr>record_calls := record_calls s @ [computed_record c e cid]\<rparr>)
      else
        (let s2 = s\<lparr>record_calls := record_calls s @
                      [computed_record c e cid, computed_record c e cid],
                    console_errors := console_errors s @
                    [''Failed to inspect/write completion interaction for completionId'']\<rparr>
         in if 1 \<in> record_throws e
            then s2\<lparr>console_errors := console_errors s2 @
                   [''Failed to fallback record completion interaction'']\<rparr>
            else s2))"
  by (simp add: record_interaction_def inspect_and_record_def fallback_record_def stmt_defs Let_def
      split: option.splits)

lemma handler_change:
  "contentChanges e = c # cs \<Longrightarrow>
   onDidChangeTextDocument g e s =
     (let s1 = s\<lparr>accepted_calls := accepted_calls s @
                 [is_accepted c e \<and> g (lastCompletionText e) > 1]\<rparr>;
          stroke = IncrementStrokes (start_line c) (start_character c)
      in if \<not> same_file e then
           (if 0 \<in> stroke_throws e
            then (s1\<lparr>fic_calls := fic_calls s @ [stroke, stroke]\<rparr>,
                  if 1 \<in> stroke_throws e then Some StrokeError else None)
            else (s1\<lparr>fic_calls := fic_calls s @ [stroke]\<rparr>, None))
         else (fst (record_interaction e c (length (record_calls s)) s1)
                \<lparr>fic_calls := fic_calls s @ [stroke]\<rparr>,
               if 0 \<in> stroke_throws e then Some StrokeError else None))"
  by (auto simp add: onDidChangeTextDocument_def Let_def record_then_strokes same_file_def
        try_catch_def incrementStrokes_def is_accepted_def)

lemma handler_no_change:
  "contentChanges e = [] \<Longrightarrow> onDidChangeTextDocument g e s = (s, None)"
  by (simp add: onDidChangeTextDocument_def)

subsection \<open>Properties of one notification\<close>

lemma edit_event_simps [simp]:
  "contentChanges (edit_event t l i) = [\<lparr>change_text = t, start_line = 3, start_character = 7\<rparr>]"
  "fsPath (edit_event t l i) = ''/src/a.ts''"
  "lastCompletionText (edit_event t l i) = l"
  "lastCompletionId (edit_event t l i) = i"
  "document_fileName (edit_event t l i) = Some ''/src/a.ts''"
  "has_recordCompletionInteraction (edit_event t l i)"
  "\<not> homedir_throws (edit_event t l i)"
  "record_throws (edit_event t l i) = {}"
  "stroke_throws (edit_event t l i) = {}"
  by (simp_all add: edit_event_def)

lemma new_records_cases:
  assumes "contentChanges e = c # cs"
    and "r \<in> set (new_records s (fst (onDidChangeTextDocument g e s)))"
  shows "\<exists>cid. lastCompletionId e = Some cid \<and> cid \<noteq> [] \<and> r = computed_record c e cid
     \<and> same_file e"
  using assms
  by (auto simp add: handler_change record_interaction_cases new_records_def Let_def
      split: if_splits option.splits)

text \<open>
  C2 (as amended). Whenever a notification with a content change hands over a record,
  the record's \<open>accepted\<close> is true exactly when the inserted text is non-empty and
  equal to the last completion text; an accepted record carries no \<open>userText\<close>, a
  rejected one carries the inserted text (possibly empty).
\<close>

theorem feedback_classification:
  assumes "contentChanges e = c # cs"
    and "r \<in> set (new_records s (fst (onDidChangeTextDocument g e s)))"
  shows "accepted r = (change_text c \<noteq> [] \<and> change_text c = lastCompletionText e) \<and>
         (accepted r \<longrightarrow> userText r = None) \<and>
         (\<not> accepted r \<longrightarrow> userText r = Some (change_text c))"
  using new_records_cases [OF assms]
  by (auto simp add: computed_record_def is_accepted_def)

theorem feedback_classification_witness:
  "\<lparr>accepted = True, userText = None, completionId = ''c1''\<rparr> \<in>
     set (new_records initial_state
       (fst (onDidChangeTextDocument line_count
          (edit_event ''return x + y'' ''return x + y'' (Some ''c1'')) initial_state))) \<and>
   \<lparr>accepted = False, userText = Some ''return 0'', completionId = ''c1''\<rparr> \<in>
     set (new_records initial_state
       (fst (onDidChangeTextDocument line_count
          (edit_event ''return 0'' ''return x + y'' (Some ''c1'')) initial_state)))"
proof -
  let ?r1 = "\<lparr>accepted = True, userText = None, completionId = ''c1''\<rparr>"
  let ?r2 = "\<lparr>accepted = False, userText = Some ''return 0'', completionId = ''c1''\<rparr>"
  let ?e1 = "edit_event ''return x + y'' ''return x + y'' (Some ''c1'')"
  let ?e2 = "edit_event ''return 0'' ''return x + y'' (Some ''c1'')"
  have m1: "?r1 \<in> set (new_records initial_state
       (fst (onDidChangeTextDocument line_count ?e1 initial_state)))"
    by (simp add: handler_change record_interaction_cases same_file_def completionDocPath_def new_records_def
        computed_record_def is_accepted_def initial_state_def Let_def)
  have m2: "?r2 \<in> set (new_records initial_state
       (fst (onDidChangeTextDocument line_count ?e2 initial_state)))"
    by (simp add: handler_change record_interaction_cases same_file_def completionDocPath_def new_records_def
        computed_record_def is_accepted_def initial_state_def Let_def)
  have "accepted ?r1 = (''return x + y'' \<noteq> [] \<and> ''return x + y'' = lastCompletionText ?e1)"
    using feedback_classification [OF _ m1] by simp
  moreover have "userText ?r2 = Some ''return 0''"
    using feedback_classification [OF _ m2] by simp
  ultimately show ?thesis using m1 m2 by simp
qed

theorem feedback_equal_empty_texts_counterexample:
  "change_text (hd (contentChanges (edit_event '''' '''' (Some ''c1'')))) =
     lastCompletionText (edit_event '''' '''' (Some ''c1'')) \<and>
   record_calls (fst (onDidChangeTextDocument line_count
       (edit_event '''' '''' (Some ''c1'')) initial_state)) =
     [\<lparr>accepted = False, userText = Some '''', completionId = ''c1''\<rparr>]"
  by (simp add: handler_change record_interaction_cases same_file_def completionDocPath_def
      computed_record_def is_accepted_def initial_state_def Let_def)

text \<open>
  C5. An edit in another file than the last completion's, or with no last completion
  identifier, hands over no record and leaves the dedup cache alone; the edit's position
  still goes to the interaction cache (once, or twice when the first call raises in the
  other-file branch), nothing is logged as an error, and nothing is raised unless
  \<open>incrementStrokes\<close> raises.
\<close>

theorem unrelated_edit_records_nothing:
  assumes "contentChanges e = c # cs"
    and "fsPath e \<noteq> completionDocPath e \<or> lastCompletionId e = None"
  shows "record_calls (fst (onDidChangeTextDocument g e s)) = record_calls s \<and>
         recentCompletionIdsSet (fst (onDidChangeTextDocument g e s)) = recentCompletionIdsSet s \<and>
         recentCompletionIdsQueue (fst (onDidChangeTextDocument g e s)) =
           recentCompletionIdsQueue s \<and>
         fic_calls (fst (onDidChangeTextDocument g e s)) =
           fic_calls s @ IncrementStrokes (start_line c) (start_character c) #
             (if \<not> same_file e \<and> 0 \<in> stroke_throws e
              then [IncrementStrokes (start_line c) (start_character c)] else []) \<and>
         console_errors (fst (onDidChangeTextDocument g e s)) = console_errors s \<and>
         (stroke_throws e = {} \<longrightarrow> snd (onDidChangeTextDocument g e s) = None)"
  using assms
  by (auto simp add: handler_change record_interaction_cases Let_def same_file_def)

theorem unrelated_edit_records_nothing_witness:
  "record_calls (fst (onDidChangeTextDocument line_count
      ((edit_event ''x'' ''x'' (Some ''c2''))\<lparr>fsPath := ''/src/b.ts''\<rparr>) initial_state)) = [] \<and>
   fic_calls (fst (onDidChangeTextDocument line_count
      ((edit_event ''x'' ''x'' (Some ''c2''))\<lparr>fsPath := ''/src/b.ts''\<rparr>) initial_state)) =
     [IncrementStrokes 3 7] \<and>
   record_calls (fst (onDidChangeTextDocument line_count
      (edit_event ''x'' ''x'' None) initial_state)) = [] \<and>
   fic_calls (fst (onDidChangeTextDocument line_count
      (edit_event ''x'' ''x'' None) initial_state)) = [IncrementStrokes 3 7] \<and>
   snd (onDidChangeTextDocument line_count (edit_event ''x'' ''x'' None) initial_state) = None"
  using unrelated_edit_records_nothing [of "(edit_event ''x'' ''x'' (Some ''c2''))\<lparr>fsPath := ''/src/b.ts''\<rparr>"
      "\<lparr>change_text = ''x'', start_line = 3, start_character = 7\<rparr>" "[]" line_count initial_state]
    unrelated_edit_records_nothing [of "edit_event ''x'' ''x'' None"
      "\<lparr>change_text = ''x'', start_line = 3, start_character = 7\<rparr>" "[]" line_count initial_state]
  by (simp add: completionDocPath_def same_file_def initial_state_def)




text \<open>
  C10. A notification without content changes changes nothing: no call on the provider
  or the interaction cache, the dedup cache as it was.
\<close>

theorem no_content_change_no_effect:
  "contentChanges e = [] \<Longrightarrow> onDidChangeTextDocument g e s = (s, None)"
  by (simp add: onDidChangeTextDocument_def)

theorem no_content_change_no_effect_witness:
  "onDidChangeTextDocument line_count
     ((edit_event ''a'' ''a'' (Some ''c1''))\<lparr>contentChanges := []\<rparr>) initial_state =
   (initial_state, None)"
  using no_content_change_no_effect
    [of "(edit_event ''a'' ''a'' (Some ''c1''))\<lparr>contentChanges := []\<rparr>" line_count initial_state]
  by simp

text \<open>
  C7 (as amended). No exception raised while inspecting or persisting a feedback record
  (by \<^verbatim>\<open>os.homedir()\<close> or \<^verbatim>\<open>recordCompletionInteraction\<close>) reaches the
  handler's caller. When the first hand-over of a record raises, the same record is
  handed over once more and the failure is logged; when the inspection raises before any
  hand-over, the record is handed over once; a failure of that second attempt is logged
  and dropped. In every case the handler goes on to its stroke-accounting call. That
  call is outside every \<^verbatim>\<open>try\<close>: the handler raises to its caller exactly when
  its last \<open>incrementStrokes\<close> call raises.
\<close>

theorem recording_errors_recovered:
  "snd (onDidChangeTextDocument g e s) \<noteq> Some HomedirError \<and>
   snd (onDidChangeTextDocument g e s) \<noteq> Some RecordError \<and>
   (\<forall>c cs. contentChanges e = c # cs \<longrightarrow>
      IncrementStrokes (start_line c) (start_character c) \<in>
        set (new_fic_calls s (fst (onDidChangeTextDocument g e s))) \<and>
      snd (onDidChangeTextDocument g e s) =
        (if (same_file e \<and> 0 \<in> stroke_throws e) \<or>
            (\<not> same_file e \<and> 0 \<in> stroke_throws e \<and> 1 \<in> stroke_throws e)
         then Some StrokeError else None)) \<and>
   (\<forall>c cs cid. contentChanges e = c # cs \<and> same_file e \<and>
       lastCompletionId e = Some cid \<and> cid \<noteq> [] \<and> has_recordCompletionInteraction e \<longrightarrow>
      (\<not> homedir_throws e \<and> cid \<notin> recentCompletionIdsSet s \<and> 0 \<in> record_throws e \<longrightarrow>
         record_calls (fst (onDidChangeTextDocument g e s)) =
           record_calls s @ [computed_record c e cid, computed_record c e cid] \<and>
         console_errors (fst (onDidChangeTextDocument g e s)) =
           console_errors s @
           ''Failed to inspect/write completion interaction for completionId'' #
           (if 1 \<in> record_throws e
            then [''Failed to fallback record completion interaction''] else [])) \<and>
      (homedir_throws e \<longrightarrow>
         record_calls (fst (onDidChangeTextDocument g e s)) =
           record_calls s @ [computed_record c e cid] \<and>
         console_errors (fst (onDidChangeTextDocument g e s)) =
           console_errors s @
           ''Failed to inspect/write completion interaction for completionId'' #
           (if 0 \<in> record_throws e
            then [''Failed to fallback record completion interaction''] else [])))"
proof -
  have exn: "snd (onDidChangeTextDocument g e s) \<noteq> Some HomedirError \<and>
      snd (onDidChangeTextDocument g e s) \<noteq> Some RecordError"
    by (cases "contentChanges e") (simp_all add: handler_no_change handler_change Let_def)
  have strokes: "IncrementStrokes (start_line c) (start_character c) \<in>
        set (new_fic_calls s (fst (onDidChangeTextDocument g e s))) \<and>
      snd (onDidChangeTextDocument g e s) =
        (if (same_file e \<and> 0 \<in> stroke_throws e) \<or>
            (\<not> same_file e \<and> 0 \<in> stroke_throws e \<and> 1 \<in> stroke_throws e)
         then Some StrokeError else None)"
    if "contentChanges e = c # cs" for c cs
    using that by (simp add: handler_change Let_def new_fic_calls_def)
  have retry: "record_calls (fst (onDidChangeTextDocument g e s)) =
           record_calls s @ [computed_record c e cid, computed_record c e cid] \<and>
         console_errors (fst (onDidChangeTextDocument g e s)) =
           console_errors s @
           ''Failed to inspect/write completion interaction for completionId'' #
           (if 1 \<in> record_throws e
            then [''Failed to fallback record completion interaction''] else [])"
    if "contentChanges e = c # cs" "same_file e"
      "lastCompletionId e = Some cid" "cid \<noteq> []" "has_recordCompletionInteraction e"
      "\<not> homedir_throws e" "cid \<notin> recentCompletionIdsSet s" "0 \<in> record_throws e"
    for c cs cid
    using that by (simp add: handler_change record_interaction_cases Let_def)
  have inspect: "record_calls (fst (onDidChangeTextDocument g e s)) =
           record_calls s @ [computed_record c e cid] \<and>
         console_errors (fst (onDidChangeTextDocument g e s)) =
           console_errors s @
           ''Failed to inspect/write completion interaction for completionId'' #
           (if 0 \<in> record_throws e
            then [''Failed to fallback record completion interaction''] else [])"
    if "contentChanges e = c # cs" "same_file e"
      "lastCompletionId e = Some cid" "cid \<noteq> []" "has_recordCompletionInteraction e"
      "homedir_throws e"
    for c cs cid
    using that by (simp add: handler_change record_interaction_cases Let_def)
  show ?thesis
    using exn strokes retry inspect by blast
qed

theorem recording_errors_recovered_witness:
  "snd (onDidChangeTextDocument line_count
      ((edit_event ''a'' ''b'' (Some ''c1''))\<lparr>record_throws := {0, 1}\<rparr>) initial_state) = None \<and>
   IncrementStrokes 3 7 \<in> set (new_fic_calls initial_state
      (fst (onDidChangeTextDocument line_count
        ((edit_event ''a'' ''b'' (Some ''c1''))\<lparr>record_throws := {0, 1}\<rparr>) initial_state))) \<and>
   record_calls (fst (onDidChangeTextDocument line_count
      ((edit_event ''a'' ''b'' (Some ''c1''))\<lparr>record_throws := {0, 1}\<rparr>) initial_state)) =
     [\<lparr>accepted = False, userText = Some ''a'', completionId = ''c1''\<rparr>,
      \<lparr>accepted = False, userText = Some ''a'', completionId = ''c1''\<rparr>] \<and>
   console_errors (fst (onDidChangeTextDocument line_count
      ((edit_event ''a'' ''b'' (Some ''c1''))\<lparr>record_throws := {0, 1}\<rparr>) initial_state)) =
     [''Failed to inspect/write completion interaction for completionId'',
      ''Failed to fallback record completion interaction''] \<and>
   record_calls (fst (onDidChangeTextDocument line_count
      ((edit_event ''a'' ''b'' (Some ''c1''))\<lparr>homedir_throws := True\<rparr>) initial_state)) =
     [\<lparr>accepted = False, userText = Some ''a'', completionId = ''c1''\<rparr>]"
proof -
  let ?c = "\<lparr>change_text = ''a'', start_line = 3, start_character = 7\<rparr>"
  let ?e1 = "(edit_event ''a'' ''b'' (Some ''c1''))\<lparr>record_throws := {0, 1}\<rparr>"
  let ?e2 = "(edit_event ''a'' ''b'' (Some ''c1''))\<lparr>homedir_throws := True\<rparr>"
  have r: "computed_record ?c ?e1 ''c1'' =
      \<lparr>accepted = False, userText = Some ''a'', completionId = ''c1''\<rparr>"
    "computed_record ?c ?e2 ''c1'' =
      \<lparr>accepted = False, userText = Some ''a'', completionId = ''c1''\<rparr>"
    by (simp_all add: computed_record_def is_accepted_def)
  have h1: "contentChanges ?e1 = ?c # [] \<and> same_file ?e1 \<and>
       lastCompletionId ?e1 = Some ''c1'' \<and> ''c1'' \<noteq> [] \<and> has_recordCompletionInteraction ?e1"
    by (simp add: same_file_def completionDocPath_def)
  have h2: "contentChanges ?e2 = ?c # [] \<and> same_file ?e2 \<and>
       lastCompletionId ?e2 = Some ''c1'' \<and> ''c1'' \<noteq> [] \<and> has_recordCompletionInteraction ?e2"
    by (simp add: same_file_def completionDocPath_def)
  from recording_errors_recovered [of line_count ?e1 initial_state] h1
  have a: "snd (onDidChangeTextDocument line_count ?e1 initial_state) = None"
    "IncrementStrokes 3 7 \<in> set (new_fic_calls initial_state
       (fst (onDidChangeTextDocument line_count ?e1 initial_state)))"
    "record_calls (fst (onDidChangeTextDocument line_count ?e1 initial_state)) =
       record_calls initial_state @ [computed_record ?c ?e1 ''c1'', computed_record ?c ?e1 ''c1'']"
    "console_errors (fst (onDidChangeTextDocument line_count ?e1 initial_state)) =
       console_errors initial_state @
        [''Failed to inspect/write completion interaction for completionId'',
         ''Failed to fallback record completion interaction'']"
    by (simp_all add: initial_state_def)
  from recording_errors_recovered [of line_count ?e2 initial_state] h2
  have b: "record_calls (fst (onDidChangeTextDocument line_count ?e2 initial_state)) =
       record_calls initial_state @ [computed_record ?c ?e2 ''c1'']"
    by simp
  from a b show ?thesis
    unfolding r by (simp add: initial_state_def)
qed

theorem stroke_exception_propagates_counterexample:
  "snd (onDidChangeTextDocument line_count
      ((edit_event ''a'' ''a'' (Some ''c1''))\<lparr>stroke_throws := {0}\<rparr>) initial_state) =
     Some StrokeError"
  by (simp add: handler_change Let_def same_file_def completionDocPath_def)

text \<open>
  C8. A notification with a content change passes to \<open>setAcceptedLastCompletion\<close>
  the value true exactly when the inserted text is non-empty, equals the last completion
  text, and that text has a line-break count above 1; and whenever that value is true,
  every record the same notification hands over has \<open>accepted\<close> true.
\<close>

theorem accepted_flag_consistent:
  assumes "contentChanges e = c # cs"
  shows "accepted_calls (fst (onDidChangeTextDocument g e s)) =
           accepted_calls s @
           [change_text c \<noteq> [] \<and> change_text c = lastCompletionText e \<and>
            g (lastCompletionText e) > 1] \<and>
         (\<forall>r \<in> set (new_records s (fst (onDidChangeTextDocument g e s))).
            last (accepted_calls (fst (onDidChangeTextDocument g e s))) \<longrightarrow> accepted r)"
proof -
  have flag: "accepted_calls (fst (onDidChangeTextDocument g e s)) =
           accepted_calls s @
           [change_text c \<noteq> [] \<and> change_text c = lastCompletionText e \<and>
            g (lastCompletionText e) > 1]"
    using assms
    by (auto simp add: handler_change record_interaction_cases Let_def is_accepted_def
        split: option.splits)
  have "accepted r" if "r \<in> set (new_records s (fst (onDidChangeTextDocument g e s)))"
    and "last (accepted_calls (fst (onDidChangeTextDocument g e s)))" for r
    using new_records_cases [OF assms that(1)] that(2)
    by (auto simp add: flag computed_record_def is_accepted_def)
  with flag show ?thesis by blast
qed

theorem accepted_flag_consistent_witness:
  "accepted_calls (fst (onDidChangeTextDocument line_count
      (edit_event [CHR ''a'', CHR 0x0A, CHR ''b''] [CHR ''a'', CHR 0x0A, CHR ''b''] (Some ''c1''))
      initial_state)) = [True] \<and>
   record_calls (fst (onDidChangeTextDocument line_count
      (edit_event [CHR ''a'', CHR 0x0A, CHR ''b''] [CHR ''a'', CHR 0x0A, CHR ''b''] (Some ''c1''))
      initial_state)) =
     [\<lparr>accepted = True, userText = None, completionId = ''c1''\<rparr>]"
proof -
  let ?t = "[CHR ''a'', CHR 0x0A, CHR ''b'']"
  let ?e = "edit_event ?t ?t (Some ''c1'')"
  let ?s' = "fst (onDidChangeTextDocument line_count ?e initial_state)"
  have rc: "record_calls ?s' = [\<lparr>accepted = True, userText = None, completionId = ''c1''\<rparr>]"
    by (simp add: handler_change record_interaction_cases same_file_def completionDocPath_def
        computed_record_def is_accepted_def initial_state_def Let_def)
  have "\<lparr>accepted = True, userText = None, completionId = ''c1''\<rparr> \<in>
      set (new_records initial_state ?s')"
    by (simp add: new_records_def rc) (simp add: initial_state_def)
  with accepted_flag_consistent [of ?e "\<lparr>change_text = ?t, start_line = 3, start_character = 7\<rparr>"
      "[]" line_count initial_state]
  have "accepted_calls ?s' = [True]"
    by (simp add: line_count_def initial_state_def)
  with rc show ?thesis by simp
qed

subsection \<open>The dedup cache\<close>

lemma cache_dedup_cong:
  "cache s = cache t \<Longrightarrow> cache (dedup_insert cid s) = cache (dedup_insert cid t)"
  by (simp add: cache_def dedup_insert_def Let_def split: list.splits)

lemma cache_frame [simp]:
  "cache (s\<lparr>accepted_calls := a\<rparr>) = cache s"
  "cache (s\<lparr>record_calls := r\<rparr>) = cache s"
  "cache (s\<lparr>fic_calls := f\<rparr>) = cache s"
  "cache (s\<lparr>console_errors := l\<rparr>) = cache s"
  by (simp_all add: cache_def)

lemma cache_inv_cong: "cache s = cache t \<Longrightarrow> cache_inv s = cache_inv t"
  by (simp add: cache_def cache_inv_def)

lemma cache_inv_initial: "cache_inv initial_state"
  by (simp add: cache_inv_def initial_state_def)

lemma dedup_insert_present:
  "cid \<in> recentCompletionIdsSet s \<Longrightarrow> dedup_insert cid s = s"
  by (simp add: dedup_insert_def)

text \<open>Inserting a new identifier: it goes to the back, and the front leaves when the
  queue was full.\<close>

lemma dedup_insert_new:
  assumes "cache_inv s" and "cid \<notin> recentCompletionIdsSet s" and "cid \<noteq> []"
  shows "recentCompletionIdsQueue (dedup_insert cid s) =
           drop (Suc (length (recentCompletionIdsQueue s)) - MAX_RECENT_COMPLETION_IDS)
             (recentCompletionIdsQueue s @ [cid])"
    and "recentCompletionIdsSet (dedup_insert cid s) =
           set (recentCompletionIdsQueue (dedup_insert cid s))"
proof -
  let ?q = "recentCompletionIdsQueue s"
  have inv: "recentCompletionIdsSet s = set ?q" "distinct ?q" "length ?q \<le> 10" "[] \<notin> set ?q"
    using assms(1) by (simp_all add: cache_inv_def MAX_RECENT_COMPLETION_IDS_def)
  have both: "recentCompletionIdsQueue (dedup_insert cid s) =
           drop (Suc (length ?q) - MAX_RECENT_COMPLETION_IDS) (?q @ [cid]) \<and>
        recentCompletionIdsSet (dedup_insert cid s) =
           set (recentCompletionIdsQueue (dedup_insert cid s))"
  proof (cases "length ?q = 10")
    case True
    then obtain x xs where q: "?q = x # xs" by (cases ?q) simp_all
    have "x \<noteq> []" "x \<notin> set xs" "x \<noteq> cid"
      using inv assms(2) by (simp_all add: q) auto
    then show ?thesis using True assms(2) inv(1)
      by (simp add: dedup_insert_def MAX_RECENT_COMPLETION_IDS_def q insert_Diff_if)
  next
    case False
    then have "length ?q < 10" using inv(3) by simp
    then show ?thesis using assms(2) inv(1)
      by (simp add: dedup_insert_def MAX_RECENT_COMPLETION_IDS_def)
  qed
  from both show "recentCompletionIdsQueue (dedup_insert cid s) =
           drop (Suc (length ?q) - MAX_RECENT_COMPLETION_IDS) (?q @ [cid])" ..
  from both show "recentCompletionIdsSet (dedup_insert cid s) =
           set (recentCompletionIdsQueue (dedup_insert cid s))" ..
qed

lemma dedup_insert_inv:
  assumes "cache_inv s" and "cid \<noteq> []"
  shows "cache_inv (dedup_insert cid s)"
proof (cases "cid \<in> recentCompletionIdsSet s")
  case True
  then show ?thesis using assms by (simp add: dedup_insert_present)
next
  case False
  let ?q = "recentCompletionIdsQueue s"
  let ?d = "Suc (length ?q) - MAX_RECENT_COMPLETION_IDS"
  have q': "recentCompletionIdsQueue (dedup_insert cid s) = drop ?d (?q @ [cid])"
    and s': "recentCompletionIdsSet (dedup_insert cid s) =
           set (recentCompletionIdsQueue (dedup_insert cid s))"
    using dedup_insert_new [OF assms(1) False assms(2)] by simp_all
  have "distinct (?q @ [cid])" "[] \<notin> set (?q @ [cid])"
    using assms False by (simp_all add: cache_inv_def)
  then have "distinct (drop ?d (?q @ [cid]))" "[] \<notin> set (drop ?d (?q @ [cid]))"
    by (blast intro: distinct_drop dest: in_set_dropD)+
  moreover have "length (drop ?d (?q @ [cid])) \<le> MAX_RECENT_COMPLETION_IDS"
    using assms(1) by (simp add: cache_inv_def)
  ultimately show ?thesis
    unfolding cache_inv_def q' s' [unfolded q'] by simp
qed

lemma fold_dedup_cong:
  "cache s = cache t \<Longrightarrow> cache (fold dedup_insert ids s) = cache (fold dedup_insert ids t)"
proof (induction ids arbitrary: s t)
  case Nil
  then show ?case by simp
next
  case (Cons x xs)
  from Cons.prems have "cache (dedup_insert x s) = cache (dedup_insert x t)"
    by (rule cache_dedup_cong)
  then have "cache (fold dedup_insert xs (dedup_insert x s)) =
      cache (fold dedup_insert xs (dedup_insert x t))"
    by (rule Cons.IH)
  then show ?case by simp
qed

lemma fold_dedup_inv:
  "cache_inv s \<Longrightarrow> [] \<notin> set ids \<Longrightarrow> cache_inv (fold dedup_insert ids s)"
proof (induction ids arbitrary: s)
  case Nil
  then show ?case by simp
next
  case (Cons x xs)
  from Cons.prems have "x \<noteq> []" by auto
  with Cons.prems(1) have "cache_inv (dedup_insert x s)" by (rule dedup_insert_inv)
  then have "cache_inv (fold dedup_insert xs (dedup_insert x s))"
    using Cons.prems(2) by (intro Cons.IH) simp_all
  then show ?case by simp
qed

text \<open>Inserting distinct new identifiers keeps the most recent ones, in order.\<close>

lemma fold_dedup_fifo:
  assumes "cache_inv s" and "distinct ids" and "[] \<notin> set ids"
    and "set ids \<inter> set (recentCompletionIdsQueue s) = {}"
  shows "recentCompletionIdsQueue (fold dedup_insert ids s) =
           drop (length (recentCompletionIdsQueue s) + length ids - MAX_RECENT_COMPLETION_IDS)
             (recentCompletionIdsQueue s @ ids)"
  using assms
proof (induction ids arbitrary: s)
  case Nil
  then show ?case by (simp add: cache_inv_def)
next
  case (Cons x xs)
  let ?q = "recentCompletionIdsQueue s"
  let ?d = "Suc (length ?q) - MAX_RECENT_COMPLETION_IDS"
  let ?s' = "dedup_insert x s"
  have new: "x \<notin> recentCompletionIdsSet s" "x \<noteq> []"
    using Cons.prems by (auto simp add: cache_inv_def)
  have q': "recentCompletionIdsQueue ?s' = drop ?d (?q @ [x])"
    using dedup_insert_new(1) [OF Cons.prems(1) new] .
  have inv': "cache_inv ?s'"
    using Cons.prems(1) new(2) by (rule dedup_insert_inv)
  have len: "length ?q \<le> MAX_RECENT_COMPLETION_IDS"
    using Cons.prems(1) by (simp add: cache_inv_def)
  have "set (drop ?d (?q @ [x])) \<subseteq> set ?q \<union> {x}"
    using set_drop_subset [of ?d "?q @ [x]"] by simp
  then have disj: "set xs \<inter> set (recentCompletionIdsQueue ?s') = {}"
    using Cons.prems(2,4) unfolding q' by auto
  have ih: "recentCompletionIdsQueue (fold dedup_insert xs ?s') =
      drop (length (recentCompletionIdsQueue ?s') + length xs - MAX_RECENT_COMPLETION_IDS)
        (recentCompletionIdsQueue ?s' @ xs)"
    using Cons.IH [OF inv' _ _ disj] Cons.prems(2,3) by simp
  have step: "drop (length (recentCompletionIdsQueue ?s') + length xs - MAX_RECENT_COMPLETION_IDS)
        (recentCompletionIdsQueue ?s' @ xs) =
      drop (length ?q + length (x # xs) - MAX_RECENT_COMPLETION_IDS) (?q @ x # xs)"
  proof (cases "length ?q = MAX_RECENT_COMPLETION_IDS")
    case True
    then obtain y ys where q: "?q = y # ys"
      by (cases ?q) (simp_all add: MAX_RECENT_COMPLETION_IDS_def)
    have "recentCompletionIdsQueue ?s' = ys @ [x]"
      unfolding q' using True by (simp add: q)
    moreover have "length ys + 1 = MAX_RECENT_COMPLETION_IDS"
      using True by (simp add: q)
    ultimately show ?thesis
      by (simp add: q)
  next
    case False
    with len have "length ?q < MAX_RECENT_COMPLETION_IDS" by simp
    then have "recentCompletionIdsQueue ?s' = ?q @ [x]"
      unfolding q' by simp
    then show ?thesis by simp
  qed
  show ?case
    using ih unfolding step by (simp only: fold_simps comp_apply)
qed

subsection \<open>The handler and the dedup cache\<close>

lemma offered_id_no_change: "contentChanges e = [] \<Longrightarrow> offered_id e = None"
  by (simp add: offered_id_def qualifies_def split: option.splits)

lemma offered_id_nonempty: "offered_id e = Some i \<Longrightarrow> i \<noteq> [] \<and> qualifies i e \<and> no_faults e"
  by (auto simp add: offered_id_def qualifies_def split: option.splits if_splits)

text \<open>The handler changes the dedup cache by offering it at most one identifier.\<close>

lemma handler_cache:
  "cache (fst (onDidChangeTextDocument g e s)) =
     (case offered_id e of None \<Rightarrow> cache s | Some i \<Rightarrow> cache (dedup_insert i s))"
proof (cases "contentChanges e")
  case Nil
  then show ?thesis by (simp add: handler_no_change offered_id_no_change)
next
  case (Cons c cs)
  have same: "cache (dedup_insert i (s\<lparr>accepted_calls := a, record_calls := r\<rparr>)) =
      cache (dedup_insert i s)" for i a r
    by (rule cache_dedup_cong) simp
  show ?thesis
    using Cons
    by (auto simp add: handler_change record_interaction_cases Let_def offered_id_def
        qualifies_def no_faults_def same dedup_insert_present
        split: option.splits)
qed

lemma handler_inv:
  assumes "cache_inv s"
  shows "cache_inv (fst (onDidChangeTextDocument g e s))"
proof (cases "offered_id e")
  case None
  then have "cache (fst (onDidChangeTextDocument g e s)) = cache s"
    by (simp add: handler_cache)
  from cache_inv_cong [OF this] assms show ?thesis by simp
next
  case (Some i)
  have "cache_inv (dedup_insert i s)"
    using assms offered_id_nonempty [OF Some] by (simp add: dedup_insert_inv)
  moreover have "cache (fst (onDidChangeTextDocument g e s)) = cache (dedup_insert i s)"
    using Some by (simp add: handler_cache)
  from cache_inv_cong [OF this] have
    "cache_inv (fst (onDidChangeTextDocument g e s)) = cache_inv (dedup_insert i s)" .
  ultimately show ?thesis by simp
qed

lemma handle_changes_Cons:
  "handle_changes g s (e # es) = handle_changes g (fst (onDidChangeTextDocument g e s)) es"
  by (simp add: handle_changes_def)

lemma handle_changes_Nil: "handle_changes g s [] = s"
  by (simp add: handle_changes_def)

lemma handle_changes_inv: "cache_inv s \<Longrightarrow> cache_inv (handle_changes g s es)"
proof (induction es arbitrary: s)
  case Nil
  then show ?case by (simp add: handle_changes_Nil)
next
  case (Cons e es)
  from Cons.prems have "cache_inv (fst (onDidChangeTextDocument g e s))"
    by (rule handler_inv)
  then have "cache_inv (handle_changes g (fst (onDidChangeTextDocument g e s)) es)"
    by (rule Cons.IH)
  then show ?case by (simp add: handle_changes_Cons)
qed

lemma offered_ids_Cons:
  "offered_ids (e # es) =
     (case offered_id e of None \<Rightarrow> offered_ids es | Some i \<Rightarrow> i # offered_ids es)"
  by (simp add: offered_ids_def split: option.splits)

lemma offered_ids_nonempty: "[] \<notin> set (offered_ids es)"
proof (induction es)
  case Nil
  show ?case by (simp add: offered_ids_def)
next
  case (Cons e es)
  then show ?case
    using offered_id_nonempty [of e]
    by (cases "offered_id e") (auto simp add: offered_ids_Cons)
qed

lemma handle_changes_cache:
  "cache (handle_changes g s es) = cache (fold dedup_insert (offered_ids es) s)"
proof (induction es arbitrary: s)
  case Nil
  then show ?case by (simp add: handle_changes_Nil offered_ids_def)
next
  case (Cons e es)
  have ih: "cache (handle_changes g (fst (onDidChangeTextDocument g e s)) es) =
      cache (fold dedup_insert (offered_ids es) (fst (onDidChangeTextDocument g e s)))"
    by (rule Cons.IH)
  show ?case
  proof (cases "offered_id e")
    case None
    then have "cache (fst (onDidChangeTextDocument g e s)) = cache s"
      by (simp add: handler_cache)
    then have "cache (fold dedup_insert (offered_ids es) (fst (onDidChangeTextDocument g e s))) =
        cache (fold dedup_insert (offered_ids es) s)"
      by (rule fold_dedup_cong)
    with ih None show ?thesis
      by (simp add: handle_changes_Cons offered_ids_Cons)
  next
    case (Some i)
    then have "cache (fst (onDidChangeTextDocument g e s)) = cache (dedup_insert i s)"
      by (simp add: handler_cache)
    then have "cache (fold dedup_insert (offered_ids es) (fst (onDidChangeTextDocument g e s))) =
        cache (fold dedup_insert (offered_ids es) (dedup_insert i s))"
      by (rule fold_dedup_cong)
    with ih Some show ?thesis
      by (simp add: handle_changes_Cons offered_ids_Cons)
  qed
qed

text \<open>
  C4. From activation on, after any sequence of change notifications the dedup cache
  holds at most \<open>MAX_RECENT_COMPLETION_IDS\<close> (10) identifiers; and when the
  notifications have offered it \<open>10 + k\<close> distinct identifiers, the queue is exactly the
  10 offered last, each of them is present in the set, and the \<open>k\<close> offered first
  are absent.
\<close>

theorem dedup_cache_bounded_fifo:
  "card (recentCompletionIdsSet (handle_changes g initial_state es)) \<le> MAX_RECENT_COMPLETION_IDS \<and>
   length (recentCompletionIdsQueue (handle_changes g initial_state es)) \<le>
     MAX_RECENT_COMPLETION_IDS \<and>
   (\<forall>k. distinct (offered_ids es) \<and> length (offered_ids es) = MAX_RECENT_COMPLETION_IDS + k \<longrightarrow>
      recentCompletionIdsQueue (handle_changes g initial_state es) = drop k (offered_ids es) \<and>
      card (recentCompletionIdsSet (handle_changes g initial_state es)) =
        MAX_RECENT_COMPLETION_IDS \<and>
      (\<forall>i \<in> set (drop k (offered_ids es)).
         i \<in> recentCompletionIdsSet (handle_changes g initial_state es)) \<and>
      (\<forall>i \<in> set (take k (offered_ids es)).
         i \<notin> recentCompletionIdsSet (handle_changes g initial_state es)))"
proof -
  let ?s = "handle_changes g initial_state es"
  let ?ids = "offered_ids es"
  have inv: "cache_inv ?s"
    using cache_inv_initial by (rule handle_changes_inv)
  then have set_q: "recentCompletionIdsSet ?s = set (recentCompletionIdsQueue ?s)"
    and len: "length (recentCompletionIdsQueue ?s) \<le> MAX_RECENT_COMPLETION_IDS"
    and dist: "distinct (recentCompletionIdsQueue ?s)"
    by (simp_all add: cache_inv_def)
  have card_le: "card (recentCompletionIdsSet ?s) \<le> MAX_RECENT_COMPLETION_IDS"
    unfolding set_q using card_length [of "recentCompletionIdsQueue ?s"] len by simp
  have fifo: "recentCompletionIdsQueue ?s = drop k ?ids \<and>
      card (recentCompletionIdsSet ?s) = MAX_RECENT_COMPLETION_IDS \<and>
      (\<forall>i \<in> set (drop k ?ids). i \<in> recentCompletionIdsSet ?s) \<and>
      (\<forall>i \<in> set (take k ?ids). i \<notin> recentCompletionIdsSet ?s)"
    if d: "distinct ?ids" and l: "length ?ids = MAX_RECENT_COMPLETION_IDS + k" for k
  proof -
    have "cache ?s = cache (fold dedup_insert ?ids initial_state)"
      by (rule handle_changes_cache)
    then have "recentCompletionIdsQueue ?s =
        recentCompletionIdsQueue (fold dedup_insert ?ids initial_state)"
      by (simp add: cache_def)
    also have "\<dots> = drop (length (recentCompletionIdsQueue initial_state) + length ?ids
          - MAX_RECENT_COMPLETION_IDS) (recentCompletionIdsQueue initial_state @ ?ids)"
      using cache_inv_initial d offered_ids_nonempty
      by (rule fold_dedup_fifo) (simp add: initial_state_def)
    also have "\<dots> = drop k ?ids"
      by (simp add: initial_state_def l)
    finally have q: "recentCompletionIdsQueue ?s = drop k ?ids" .
    have "card (recentCompletionIdsSet ?s) = length (drop k ?ids)"
      unfolding set_q q using d by (simp add: distinct_card)
    then have c: "card (recentCompletionIdsSet ?s) = MAX_RECENT_COMPLETION_IDS"
      by (simp add: l)
    have "set (take k ?ids) \<inter> set (drop k ?ids) = {}"
      using d distinct_append [of "take k ?ids" "drop k ?ids"] by simp
    then have "\<forall>i \<in> set (take k ?ids). i \<notin> recentCompletionIdsSet ?s"
      unfolding set_q q by auto
    with q c show ?thesis by (simp add: set_q)
  qed
  from card_le len fifo show ?thesis by blast
qed

lemma offered_ids_edits_for:
  "[] \<notin> set ids \<Longrightarrow> offered_ids (edits_for ids) = ids"
  by (induction ids)
    (auto simp add: edits_for_def offered_ids_Cons offered_id_def qualifies_def no_faults_def
      same_file_def completionDocPath_def offered_ids_def)

theorem dedup_cache_bounded_fifo_witness:
  "recentCompletionIdsQueue (handle_changes line_count initial_state
      (edits_for [''a'', ''b'', ''c'', ''d'', ''e'', ''f'', ''g'', ''h'', ''i'', ''j'', ''k''])) =
     [''b'', ''c'', ''d'', ''e'', ''f'', ''g'', ''h'', ''i'', ''j'', ''k''] \<and>
   ''a'' \<notin> recentCompletionIdsSet (handle_changes line_count initial_state
      (edits_for [''a'', ''b'', ''c'', ''d'', ''e'', ''f'', ''g'', ''h'', ''i'', ''j'', ''k''])) \<and>
   ''k'' \<in> recentCompletionIdsSet (handle_changes line_count initial_state
      (edits_for [''a'', ''b'', ''c'', ''d'', ''e'', ''f'', ''g'', ''h'', ''i'', ''j'', ''k''])) \<and>
   card (recentCompletionIdsSet (handle_changes line_count initial_state
      (edits_for [''a'', ''b'', ''c'', ''d'', ''e'', ''f'', ''g'', ''h'', ''i'', ''j'', ''k'']))) = 10"
proof -
  let ?ids = "[''a'', ''b'', ''c'', ''d'', ''e'', ''f'', ''g'', ''h'', ''i'', ''j'', ''k'']"
  have ids: "offered_ids (edits_for ?ids) = ?ids"
    by (rule offered_ids_edits_for) simp
  have "distinct (offered_ids (edits_for ?ids)) \<and>
      length (offered_ids (edits_for ?ids)) = MAX_RECENT_COMPLETION_IDS + 1"
    unfolding ids by (simp add: MAX_RECENT_COMPLETION_IDS_def)
  with dedup_cache_bounded_fifo [of line_count "edits_for ?ids"]
  show ?thesis
    unfolding ids by (simp add: MAX_RECENT_COMPLETION_IDS_def)
qed

subsection \<open>Records per identifier\<close>

lemma dedup_insert_set_subset:
  "recentCompletionIdsSet (dedup_insert i s) \<subseteq> insert i (recentCompletionIdsSet s)"
  by (auto simp add: dedup_insert_def Let_def split: list.splits if_splits)

lemma offered_id_qualifies:
  "no_faults e \<Longrightarrow> (offered_id e = Some i) = qualifies i e"
  by (auto simp add: offered_id_def qualifies_def split: option.splits)

lemma offered_id_Some: "offered_id e = Some i \<Longrightarrow> qualifies i e"
  by (auto simp add: offered_id_def split: option.splits if_splits)

text \<open>The error path is taken when the inspection raises, or the first hand-over does.\<close>

lemma logs_error_iff:
  "contentChanges e = c # cs \<Longrightarrow>
   logs_error g e s =
     (same_file e \<and>
      (\<exists>cid. lastCompletionId e = Some cid \<and> cid \<noteq> [] \<and>
         (homedir_throws e \<or>
          (cid \<notin> recentCompletionIdsSet s \<and> has_recordCompletionInteraction e \<and>
           0 \<in> record_throws e))))"
  by (cases "lastCompletionId e")
    (simp_all add: logs_error_def handler_change record_interaction_cases Let_def)

text \<open>
  When a notification that qualifies for \<open>X\<close> does not take the error path, it hands
  over a record for \<open>X\<close> exactly if it finds \<open>X\<close> absent from the cache, and then it
  offers \<open>X\<close> to the cache; the other notifications hand over nothing for \<open>X\<close>,
  whatever they raise.
\<close>

lemma handler_records_for:
  assumes "qualifies X e \<longrightarrow> \<not> logs_error g e s"
  shows "length (records_for X (fst (onDidChangeTextDocument g e s))) =
     length (records_for X s) +
       (if qualifies X e \<and> X \<notin> recentCompletionIdsSet s then 1 else 0)"
    and "qualifies X e \<Longrightarrow> X \<notin> recentCompletionIdsSet s \<Longrightarrow> offered_id e = Some X"
proof -
  have both: "length (records_for X (fst (onDidChangeTextDocument g e s))) =
     length (records_for X s) +
       (if qualifies X e \<and> X \<notin> recentCompletionIdsSet s then 1 else 0) \<and>
     (qualifies X e \<and> X \<notin> recentCompletionIdsSet s \<longrightarrow> offered_id e = Some X)"
  proof (cases "contentChanges e")
    case Nil
    then show ?thesis by (simp add: handler_no_change qualifies_def)
  next
    case (Cons c cs)
    have id: "completionId (computed_record c e i) = i" for i
      by (simp add: computed_record_def)
    show ?thesis
      using Cons assms
      by (auto simp add: handler_change record_interaction_cases Let_def records_for_def
          logs_error_iff qualifies_def offered_id_def no_faults_def id split: option.splits)
  qed
  from both show "length (records_for X (fst (onDidChangeTextDocument g e s))) =
     length (records_for X s) +
       (if qualifies X e \<and> X \<notin> recentCompletionIdsSet s then 1 else 0)" ..
  from both show "qualifies X e \<Longrightarrow> X \<notin> recentCompletionIdsSet s \<Longrightarrow> offered_id e = Some X"
    by blast
qed

text \<open>What a notification inserts is the identifier it offers, when the cache lacks it.\<close>

lemma inserted_by_eq:
  assumes "cache_inv s"
  shows "inserted_by g e s =
     (case offered_id e of
        None \<Rightarrow> []
      | Some i \<Rightarrow> if i \<in> recentCompletionIdsSet s then [] else [i])"
proof -
  let ?q = "recentCompletionIdsQueue s"
  have set_q: "recentCompletionIdsSet s = set ?q"
    using assms by (simp add: cache_inv_def)
  have old: "filter (\<lambda>i. i \<notin> recentCompletionIdsSet s) (drop d ?q) = []" for d
    unfolding set_q by (auto simp add: filter_empty_conv dest: in_set_dropD)
  show ?thesis
  proof (cases "offered_id e")
    case None
    then have "cache (fst (onDidChangeTextDocument g e s)) = cache s"
      by (simp add: handler_cache)
    then have "recentCompletionIdsQueue (fst (onDidChangeTextDocument g e s)) = drop 0 ?q"
      by (simp add: cache_def)
    then show ?thesis
      unfolding inserted_by_def using None old [of 0] by simp
  next
    case (Some i)
    have c: "cache (fst (onDidChangeTextDocument g e s)) = cache (dedup_insert i s)"
      using Some by (simp add: handler_cache)
    show ?thesis
    proof (cases "i \<in> recentCompletionIdsSet s")
      case True
      then have "recentCompletionIdsQueue (fst (onDidChangeTextDocument g e s)) = drop 0 ?q"
        using c by (simp add: cache_def dedup_insert_present)
      then show ?thesis
        unfolding inserted_by_def using Some True old [of 0] by simp
    next
      case False
      let ?d = "Suc (length ?q) - MAX_RECENT_COMPLETION_IDS"
      have "i \<noteq> []" using offered_id_nonempty [OF Some] by simp
      with assms False have "recentCompletionIdsQueue (dedup_insert i s) = drop ?d (?q @ [i])"
        by (rule dedup_insert_new(1))
      moreover have "?d - length ?q = 0"
        by (simp add: MAX_RECENT_COMPLETION_IDS_def)
      then have "drop ?d (?q @ [i]) = drop ?d ?q @ [i]"
        unfolding drop_append by simp
      ultimately have "recentCompletionIdsQueue (fst (onDidChangeTextDocument g e s)) =
          drop ?d ?q @ [i]"
        using c by (simp add: cache_def)
      then show ?thesis
        unfolding inserted_by_def using Some False old [of ?d] by simp
    qed
  qed
qed

text \<open>A new identifier behind \<open>X\<close> in the queue leaves \<open>X\<close> in it while fewer than
  \<open>MAX_RECENT_COMPLETION_IDS\<close> identifiers stand from \<open>X\<close> on.\<close>

lemma dedup_insert_keeps:
  assumes "cache_inv s" and q: "recentCompletionIdsQueue s = pre @ X # post"
    and "i \<notin> recentCompletionIdsSet s" and "i \<noteq> []"
    and short: "Suc (length post) < MAX_RECENT_COMPLETION_IDS"
  shows "\<exists>pre'. recentCompletionIdsQueue (dedup_insert i s) = pre' @ X # post @ [i]"
proof -
  let ?d = "Suc (length (recentCompletionIdsQueue s)) - MAX_RECENT_COMPLETION_IDS"
  have "recentCompletionIdsQueue (dedup_insert i s) =
      drop ?d (recentCompletionIdsQueue s @ [i])"
    using assms(1,3,4) by (rule dedup_insert_new(1))
  also have "recentCompletionIdsQueue s @ [i] = pre @ (X # post @ [i])"
    by (simp add: q)
  also have "drop ?d (pre @ (X # post @ [i])) = drop ?d pre @ (X # post @ [i])"
  proof -
    have "?d - length pre = 0" using short by (simp add: q)
    then show ?thesis unfolding drop_append by simp
  qed
  finally show ?thesis by blast
qed

lemma inserted_after_append:
  "X \<in> set ins \<Longrightarrow> inserted_after X (ins @ ys) = inserted_after X ins @ ys"
proof -
  assume X: "X \<in> set ins"
  then have "dropWhile (\<lambda>i. i \<noteq> X) (ins @ ys) = dropWhile (\<lambda>i. i \<noteq> X) ins @ ys"
    by (intro dropWhile_append1) simp_all
  moreover have "dropWhile (\<lambda>i. i \<noteq> X) ins \<noteq> []"
    using X by (auto simp add: dropWhile_eq_Nil_conv)
  ultimately show ?thesis by (simp add: inserted_after_def)
qed

lemma inserted_after_first: "X \<notin> set ins \<Longrightarrow> inserted_after X (ins @ [X]) = []"
proof -
  assume "X \<notin> set ins"
  then have "dropWhile (\<lambda>i. i \<noteq> X) (ins @ [X]) = dropWhile (\<lambda>i. i \<noteq> X) [X]"
    by (intro dropWhile_append2) auto
  then show ?thesis by (simp add: inserted_after_def)
qed

lemma inserted_by_cases:
  assumes "cache_inv s"
  shows "inserted_by g e s = [] \<or>
     (\<exists>i. inserted_by g e s = [i] \<and> offered_id e = Some i \<and> i \<notin> recentCompletionIdsSet s)"
  by (cases "offered_id e") (simp_all add: inserted_by_eq [OF assms])

text \<open>Once \<open>MAX_RECENT_COMPLETION_IDS\<close> identifiers have been inserted after \<open>X\<close>, no
  later notification qualifies for \<open>X\<close> within the window, so none records for it.\<close>

lemma outside_window_not_recorded:
  assumes "cache_inv s" and "X \<in> set ins"
    and "MAX_RECENT_COMPLETION_IDS \<le> length (inserted_after X ins)"
    and "within_window g X ins s es"
  shows "length (records_for X (handle_changes g s es)) = length (records_for X s)"
  using assms
proof (induction es arbitrary: s ins)
  case Nil
  then show ?case by (simp add: handle_changes_Nil)
next
  case (Cons e es)
  let ?s' = "fst (onDidChangeTextDocument g e s)"
  let ?ins' = "ins @ inserted_by g e s"
  have nq: "\<not> qualifies X e" and w': "within_window g X ?ins' ?s' es"
    using Cons.prems(3,4) by auto
  have rec: "length (records_for X ?s') = length (records_for X s)"
    using nq by (simp add: handler_records_for(1))
  have inv': "cache_inv ?s'"
    using Cons.prems(1) by (rule handler_inv)
  have "X \<in> set ?ins'" using Cons.prems(2) by simp
  moreover have "MAX_RECENT_COMPLETION_IDS \<le> length (inserted_after X ?ins')"
    using Cons.prems(3) by (simp add: inserted_after_append [OF Cons.prems(2)])
  ultimately have "length (records_for X (handle_changes g ?s' es)) =
      length (records_for X ?s')"
    using inv' w' by (intro Cons.IH)
  then show ?case by (simp add: handle_changes_Cons rec)
qed

text \<open>While \<open>X\<close> is in the queue, with \<open>post\<close> the identifiers inserted after it, no
  further record is handed over for it by a notification within the window.\<close>

lemma protected_id_not_recorded:
  assumes "cache_inv s" and "recentCompletionIdsQueue s = pre @ X # post"
    and "X \<in> set ins" and "length (inserted_after X ins) = length post"
    and "fallback_free g X s es" and "within_window g X ins s es"
  shows "length (records_for X (handle_changes g s es)) = length (records_for X s)"
  using assms
proof (induction es arbitrary: s pre post ins)
  case Nil
  then show ?case by (simp add: handle_changes_Nil)
next
  case (Cons e es)
  let ?s' = "fst (onDidChangeTextDocument g e s)"
  let ?ins' = "ins @ inserted_by g e s"
  have nf: "qualifies X e \<longrightarrow> \<not> logs_error g e s"
    and nfs: "fallback_free g X ?s' es"
    using Cons.prems(5) by simp_all
  have w': "within_window g X ?ins' ?s' es"
    using Cons.prems(6) by simp
  have set_q: "recentCompletionIdsSet s = set (recentCompletionIdsQueue s)"
    using Cons.prems(1) by (simp add: cache_inv_def)
  have X_in: "X \<in> recentCompletionIdsSet s"
    by (simp add: set_q Cons.prems(2))
  have inv': "cache_inv ?s'"
    using Cons.prems(1) by (rule handler_inv)
  have rec: "length (records_for X ?s') = length (records_for X s)"
    using X_in by (simp add: handler_records_for(1) [OF nf])
  have X_ins': "X \<in> set ?ins'" using Cons.prems(3) by simp
  have after': "inserted_after X ?ins' = inserted_after X ins @ inserted_by g e s"
    by (rule inserted_after_append [OF Cons.prems(3)])
  have "length (records_for X (handle_changes g ?s' es)) = length (records_for X ?s')"
  proof -
    from inserted_by_cases [OF Cons.prems(1), of g e]
    consider "inserted_by g e s = []"
      | i where "inserted_by g e s = [i]" "offered_id e = Some i"
          "i \<notin> recentCompletionIdsSet s"
      by blast
    then show ?thesis
    proof cases
      case 1
      then have "\<not> (\<exists>i. offered_id e = Some i \<and> i \<notin> recentCompletionIdsSet s)"
        by (auto simp add: inserted_by_eq [OF Cons.prems(1)] split: option.splits if_splits)
      then have "cache ?s' = cache s"
        by (cases "offered_id e") (simp_all add: handler_cache dedup_insert_present)
      then have q': "recentCompletionIdsQueue ?s' = pre @ X # post"
        by (simp add: cache_def Cons.prems(2))
      have "length (inserted_after X ?ins') = length post"
        unfolding after' using 1 Cons.prems(4) by simp
      from Cons.IH [OF inv' q' X_ins' this nfs w'] show ?thesis .
    next
      case 2
      have i_ne: "i \<noteq> []" using offered_id_nonempty [OF 2(2)] by simp
      have len': "length (inserted_after X ?ins') = Suc (length post)"
        unfolding after' using 2(1) Cons.prems(4) by simp
      show ?thesis
      proof (cases "Suc (length post) < MAX_RECENT_COMPLETION_IDS")
        case True
        have "cache ?s' = cache (dedup_insert i s)"
          using 2(2) by (simp add: handler_cache)
        then have "recentCompletionIdsQueue ?s' = recentCompletionIdsQueue (dedup_insert i s)"
          by (simp add: cache_def)
        moreover obtain pre' where
          "recentCompletionIdsQueue (dedup_insert i s) = pre' @ X # post @ [i]"
          using dedup_insert_keeps [OF Cons.prems(1,2) 2(3) i_ne True] by blast
        ultimately have q': "recentCompletionIdsQueue ?s' = pre' @ X # (post @ [i])" by simp
        have "length (inserted_after X ?ins') = length (post @ [i])"
          using len' by simp
        from Cons.IH [OF inv' q' X_ins' this nfs w'] show ?thesis .
      next
        case False
        then have "MAX_RECENT_COMPLETION_IDS \<le> length (inserted_after X ?ins')"
          using len' by simp
        from outside_window_not_recorded [OF inv' X_ins' this w'] show ?thesis .
      qed
    qed
  qed
  then show ?case by (simp add: handle_changes_Cons rec)
qed

lemma unseen_id_recorded_once:
  assumes "cache_inv s" and "X \<notin> recentCompletionIdsSet s" and "X \<notin> set ins"
    and "fallback_free g X s es" and "within_window g X ins s es"
  shows "length (records_for X (handle_changes g s es)) =
           length (records_for X s) + (if \<exists>e \<in> set es. qualifies X e then 1 else 0)"
  using assms
proof (induction es arbitrary: s ins)
  case Nil
  then show ?case by (simp add: handle_changes_Nil)
next
  case (Cons e es)
  let ?s' = "fst (onDidChangeTextDocument g e s)"
  let ?ins' = "ins @ inserted_by g e s"
  have nf: "qualifies X e \<longrightarrow> \<not> logs_error g e s"
    and nfs: "fallback_free g X ?s' es"
    using Cons.prems(4) by simp_all
  have w': "within_window g X ?ins' ?s' es"
    using Cons.prems(5) by simp
  have inv': "cache_inv ?s'"
    using Cons.prems(1) by (rule handler_inv)
  show ?case
  proof (cases "qualifies X e")
    case True
    have off: "offered_id e = Some X"
      using True Cons.prems(2) by (rule handler_records_for(2) [OF nf])
    have X_ne: "X \<noteq> []" using True by (simp add: qualifies_def)
    have rec: "length (records_for X ?s') = Suc (length (records_for X s))"
      using True Cons.prems(2) by (simp add: handler_records_for(1) [OF nf])
    have ins': "?ins' = ins @ [X]"
      using off Cons.prems(2) by (simp add: inserted_by_eq [OF Cons.prems(1)])
    have X_ins': "X \<in> set ?ins'" unfolding ins' by simp
    have after': "length (inserted_after X ?ins') = length ([] :: string list)"
      unfolding ins' by (simp add: inserted_after_first [OF Cons.prems(3)])
    have "cache ?s' = cache (dedup_insert X s)"
      using off by (simp add: handler_cache)
    then have "recentCompletionIdsQueue ?s' = recentCompletionIdsQueue (dedup_insert X s)"
      by (simp add: cache_def)
    also have "\<dots> = drop (Suc (length (recentCompletionIdsQueue s)) - MAX_RECENT_COMPLETION_IDS)
        (recentCompletionIdsQueue s @ [X])"
      using Cons.prems(1,2) X_ne by (rule dedup_insert_new(1))
    also have "\<dots> = drop (Suc (length (recentCompletionIdsQueue s)) - MAX_RECENT_COMPLETION_IDS)
        (recentCompletionIdsQueue s) @ X # []"
      unfolding drop_append by (simp add: MAX_RECENT_COMPLETION_IDS_def)
    finally have q': "recentCompletionIdsQueue ?s' =
        drop (Suc (length (recentCompletionIdsQueue s)) - MAX_RECENT_COMPLETION_IDS)
          (recentCompletionIdsQueue s) @ X # []" .
    from protected_id_not_recorded [OF inv' q' X_ins' after' nfs w']
    have "length (records_for X (handle_changes g ?s' es)) = length (records_for X ?s')" .
    with True rec show ?thesis by (simp add: handle_changes_Cons)
  next
    case False
    then have off: "offered_id e \<noteq> Some X"
      using offered_id_Some [of e X] by blast
    have rec: "length (records_for X ?s') = length (records_for X s)"
      using False by (simp add: handler_records_for(1) [OF nf])
    have "recentCompletionIdsSet ?s' \<subseteq> recentCompletionIdsSet s \<union> {i. offered_id e = Some i}"
    proof (cases "offered_id e")
      case None
      then have "cache ?s' = cache s" by (simp add: handler_cache)
      then show ?thesis by (simp add: cache_def)
    next
      case (Some i)
      then have "cache ?s' = cache (dedup_insert i s)" by (simp add: handler_cache)
      then have "recentCompletionIdsSet ?s' = recentCompletionIdsSet (dedup_insert i s)"
        by (simp add: cache_def)
      then show ?thesis using dedup_insert_set_subset [of i s] Some by auto
    qed
    then have X_out: "X \<notin> recentCompletionIdsSet ?s'"
      using Cons.prems(2) off by auto
    have "\<forall>i \<in> set (inserted_by g e s). i \<noteq> X"
      using off by (auto simp add: inserted_by_eq [OF Cons.prems(1)] split: option.splits if_splits)
    then have X_ins': "X \<notin> set ?ins'"
      using Cons.prems(3) by auto
    from Cons.IH [OF inv' X_out X_ins' nfs w'] False rec
    show ?thesis by (simp add: handle_changes_Cons)
  qed
qed

text \<open>
  C1 (as amended). Start in a state whose dedup cache does not hold the identifier
  \<open>X\<close> (as at activation) and handle any sequence of change notifications such that
  no notification that qualifies for \<open>X\<close> takes the error path of the recording
  block, and such that, whenever a notification qualifies for \<open>X\<close>, fewer than
  \<open>MAX_RECENT_COMPLETION_IDS\<close> identifiers (at most 9) have been inserted into the
  dedup cache since \<open>X\<close> was. Then exactly one record is handed over for \<open>X\<close> if
  some notification qualifies for \<open>X\<close>, and none otherwise. Only insertions count: a
  notification for an identifier the cache already holds inserts nothing, and
  notifications for other identifiers may take the error path.
\<close>

theorem one_record_per_completion:
  assumes "cache_inv s" and "X \<notin> recentCompletionIdsSet s"
    and "fallback_free g X s es"
    and "within_window g X [] s es"
  shows "length (records_for X (handle_changes g s es)) =
           length (records_for X s) + (if \<exists>e \<in> set es. qualifies X e then 1 else 0)"
  using assms by (intro unseen_id_recorded_once [where ins = "[]"]) simp_all

theorem one_record_per_completion_witness:
  "length (records_for ''a''
     (handle_changes line_count initial_state
        (edits_for [''b'', ''c'', ''d'', ''e'', ''f'', ''g'', ''h'', ''i'', ''j''] @
         edit_event ''x'' ''y'' (Some ''a'') #
         (edit_event ''x'' ''y'' (Some ''b''))\<lparr>homedir_throws := True\<rparr> #
         (edit_event ''x'' ''y'' (Some ''a''))\<lparr>record_throws := {0}\<rparr> #
         edits_for [''b'', ''c'', ''d'', ''e'', ''f'', ''g'', ''h'', ''i'', ''j'', ''k'', ''a'',
                    ''l'', ''m'', ''n'', ''o'', ''p'', ''q'', ''r'', ''s'', ''t'']))) = 1"
proof -
  let ?es = "edits_for [''b'', ''c'', ''d'', ''e'', ''f'', ''g'', ''h'', ''i'', ''j''] @
         edit_event ''x'' ''y'' (Some ''a'') #
         (edit_event ''x'' ''y'' (Some ''b''))\<lparr>homedir_throws := True\<rparr> #
         (edit_event ''x'' ''y'' (Some ''a''))\<lparr>record_throws := {0}\<rparr> #
         edits_for [''b'', ''c'', ''d'', ''e'', ''f'', ''g'', ''h'', ''i'', ''j'', ''k'', ''a'',
                    ''l'', ''m'', ''n'', ''o'', ''p'', ''q'', ''r'', ''s'', ''t'']"
  have h1: "cache_inv initial_state" by (rule cache_inv_initial)
  have h2: "''a'' \<notin> recentCompletionIdsSet initial_state" by (simp add: initial_state_def)
  have h3: "fallback_free line_count ''a'' initial_state ?es"
    by code_simp
  have h4: "within_window line_count ''a'' [] initial_state ?es"
    by code_simp
  have h5: "\<exists>e \<in> set ?es. qualifies ''a'' e"
    by (simp add: edits_for_def qualifies_def same_file_def completionDocPath_def)
  have h6: "records_for ''a'' initial_state = []"
    by (simp add: records_for_def initial_state_def)
  from one_record_per_completion [OF h1 h2 h3 h4] h5 h6
  show ?thesis by simp
qed

theorem record_repeated_counterexample:
  "length (records_for ''a''
     (handle_changes line_count initial_state
        (edits_for [''a'', ''b'', ''c'', ''d'', ''e'', ''f'', ''g'', ''h'', ''i'', ''j'', ''k'',
                    ''a'']))) = 2 \<and>
   length (records_for ''a''
     (handle_changes line_count initial_state
        [edit_event ''x'' ''y'' (Some ''a''),
         (edit_event ''x'' ''y'' (Some ''a''))\<lparr>homedir_throws := True\<rparr>])) = 2"
  by code_simp

section \<open>Properties of the open and close handlers\<close>

lemma store_of_close:
  "store_of (onDidCloseTextDocument p s) = fic_delete p (fic_endSession (store_of s))"
  by (simp add: store_of_def onDidCloseTextDocument_def)

lemma store_of_open:
  "store_of (onDidOpenTextDocument p s) = fic_incrementVisits (fic_startSession p (store_of s))"
  by (simp add: store_of_def onDidOpenTextDocument_def)

text \<open>
  C3 (as amended). In the Interaction Store, closing and reopening a session
  (\<open>endSession\<close>, then \<open>startSession\<close>) leaves the state of every known path as it
  was, and \<open>delete(path)\<close> clears the state of that path and of no other. The
  document-close handler calls \<open>endSession\<close> and then \<open>delete\<close> on the closed path:
  after a document-close followed by a document-open for a path, that path's counters
  start again, at one visit and no stroke, and every other path's state is as before.
\<close>

theorem close_reopen_restarts_counters:
  "interactions (store_of (onDidOpenTextDocument p (onDidCloseTextDocument p s))) p =
     Some \<lparr>visits = 1, strokes = 0, lastStrokePosition = None\<rparr> \<and>
   (\<forall>q. q \<noteq> p \<longrightarrow>
      interactions (store_of (onDidOpenTextDocument p (onDidCloseTextDocument p s))) q =
      interactions (store_of s) q) \<and>
   (\<forall>q. interactions st q \<noteq> None \<longrightarrow>
      interactions (fic_startSession q (fic_endSession st)) = interactions st) \<and>
   interactions (fic_delete p st) p = None \<and>
   (\<forall>q. q \<noteq> p \<longrightarrow> interactions (fic_delete p st) q = interactions st q)"
  by (auto simp add: store_of_close store_of_open fic_delete_def fic_endSession_def
      fic_startSession_def fic_incrementVisits_def)

theorem close_reopen_restarts_counters_witness:
  "interactions (store_of (onDidOpenTextDocument ''/src/a.ts''
      (onDidCloseTextDocument ''/src/a.ts''
        (onDidOpenTextDocument ''/src/b.ts'' initial_state)))) ''/src/b.ts'' =
     Some \<lparr>visits = 1, strokes = 0, lastStrokePosition = None\<rparr> \<and>
   interactions (fic_startSession ''/src/b.ts'' (fic_endSession
      (store_of (onDidOpenTextDocument ''/src/b.ts'' initial_state)))) ''/src/b.ts'' =
     Some \<lparr>visits = 1, strokes = 0, lastStrokePosition = None\<rparr>"
proof -
  let ?s = "onDidOpenTextDocument ''/src/b.ts'' initial_state"
  have b: "interactions (store_of ?s) ''/src/b.ts'' =
      Some \<lparr>visits = 1, strokes = 0, lastStrokePosition = None\<rparr>"
    by (simp add: store_of_def onDidOpenTextDocument_def initial_state_def empty_store_def
        fic_startSession_def fic_incrementVisits_def)
  have ne: "''/src/b.ts'' \<noteq> ''/src/a.ts''" by simp
  from close_reopen_restarts_counters [of "''/src/a.ts''" ?s "store_of ?s"] ne b
  show ?thesis by simp
qed

theorem close_reopen_resets_strokes_counterexample:
  "map_option strokes (interactions (store_of
      (fst (onDidChangeTextDocument line_count (edit_event ''x'' ''y'' None)
         (onDidOpenTextDocument ''/src/a.ts'' initial_state)))) ''/src/a.ts'') = Some 1 \<and>
   map_option strokes (interactions (store_of
      (onDidOpenTextDocument ''/src/a.ts''
        (onDidCloseTextDocument ''/src/a.ts''
          (fst (onDidChangeTextDocument line_count (edit_event ''x'' ''y'' None)
             (onDidOpenTextDocument ''/src/a.ts'' initial_state)))))) ''/src/a.ts'') = Some 0"
  by (simp add: store_of_close store_of_open)
     (simp add: store_of_def handler_change onDidOpenTextDocument_def initial_state_def
        empty_store_def fic_startSession_def fic_incrementVisits_def fic_incrementStrokes_def
        fic_delete_def fic_endSession_def Let_def)

section \<open>Properties of the add-to-context commands\<close>


lemma addContextItem_frame [simp]:
  "has_addContextItem (addContextItem item sb) = has_addContextItem sb"
  "replaces (addContextItem item sb) = replaces sb"
  by (simp_all add: addContextItem_def)


lemma addFileToContext_frame [simp]:
  "has_addContextItem (addFileToContext h e sb) = has_addContextItem sb"
  by (simp add: addFileToContext_def Let_def split: option.splits)

lemma addFileToContext_funpow_frame [simp]:
  "has_addContextItem ((addFileToContext h e ^^ n) sb) = has_addContextItem sb"
  by (induction n) simp_all





lemma addSelectionToContext_frame [simp]:
  "has_addContextItem (fst (addSelectionToContext h uuid e sb)) = has_addContextItem sb"
  by (simp add: addSelectionToContext_def Let_def split: option.splits)






lemma selection_item_example:
  "items (fst (addSelectionToContext sample_host ''u1'' (Some sample_editor) empty_sidebar)) =
    [SelectionContextItem ''u1'' ''Selection from a.ts (L1-L3)'' ''src/a.ts'' ''abc''
      \<lparr>startLine = 0, startCharacter = 0, endLine = 2, endCharacter = 4\<rparr>]"
  by code_simp

end
